theory Spec2Isabelle
  imports Main "HOL-Library.Char_ord" "HOL-Library.List_Lexorder" "HOL-Library.AList"
    "HOL-Library.Signed_Division" "HOL-Library.Multiset"
begin

section \<open>Go values and the parts of the standard library the encoder calls\<close>

text \<open>
  The dynamic values a caller can store in an \<^verbatim>\<open>interface{}\<close>: nil, booleans, integers,
  strings and slices of \<^verbatim>\<open>interface{}\<close> holding such values, which \<^verbatim>\<open>encoding/json\<close> can
  encode, and values of a type it cannot encode (a channel, a function, a complex
  number), which carry the name of their Go type. Not modelled: floating point values
  (with the error for NaN and the infinities), byte slices (encoded as base64 text),
  maps and structs.
\<close>

datatype goval =
    GNil
  | GBool bool
  | GInt int
  | GString string
  | GSlice "goval list"
  | GUnsupported string

text \<open>The JSON document that \<^verbatim>\<open>json.Marshal\<close> writes, as a tree; object members in output order.\<close>

datatype json =
    JNull
  | JBool bool
  | JNumber int
  | JString string
  | JArray "json list"
  | JObject "(string \<times> json) list"

text \<open>
  The errors of \<^verbatim>\<open>encoding/json\<close>: \<^verbatim>\<open>*json.UnsupportedTypeError\<close> with the name of the type,
  and \<^verbatim>\<open>*json.MarshalerError\<close>, which wraps the error a \<^verbatim>\<open>MarshalJSON\<close> method returned
  together with the name of the method's receiver type.
\<close>

datatype error =
    UnsupportedTypeError string
  | MarshalerError string error

text \<open>
  The errors of a writer: \<^verbatim>\<open>io.ErrShortWrite\<close>, reported when it accepts fewer bytes than it
  was given, and any error of the writer's own, which carries the text that \<^verbatim>\<open>%#v\<close> prints
  for it.
\<close>

datatype write_error = ErrShortWrite | WriterError string

text \<open>A call either returns or panics (a nil pointer or a nil interface is dereferenced).\<close>

datatype 'a result = Panic | Return 'a

fun error_Error :: "error \<Rightarrow> string" where
  "error_Error (UnsupportedTypeError t) = ''json: unsupported type: '' @ t"
| "error_Error (MarshalerError t e) =
     ''json: error calling MarshalJSON for type '' @ t @ '': '' @ error_Error e"

text \<open>\<^verbatim>\<open>%#v\<close> of an error; \<^verbatim>\<open>io.ErrShortWrite\<close> is \<^verbatim>\<open>errors.New("short write")\<close>.\<close>

fun fmt_GoSyntax :: "write_error \<Rightarrow> string" where
  "fmt_GoSyntax ErrShortWrite =
     ''&errors.errorString{s:'' @ [CHR 0x22] @ ''short write'' @ [CHR 0x22] @ ''}''"
| "fmt_GoSyntax (WriterError t) = t"

text \<open>\<^verbatim>\<open>%d\<close>: decimal digits, with a minus sign for a negative number.\<close>

function fmt_nat :: "nat \<Rightarrow> string" where
  "fmt_nat n =
     (if n < 10 then [''0123456789'' ! n]
      else fmt_nat (n div 10) @ [''0123456789'' ! (n mod 10)])"
  by pat_completeness auto
termination
  by (relation "measure id") auto

definition fmt_int :: "int \<Rightarrow> string" where
  "fmt_int i = (if i < 0 then CHR ''-'' # fmt_nat (nat (- i)) else fmt_nat (nat i))"

text \<open>
  \<^verbatim>\<open>strings.Split(s, "=")\<close>: the pieces of \<open>s\<close> between the occurrences of the separator;
  \<open>cur\<close> holds the piece being read, reversed. A string without the separator is one
  piece, the empty string included.
\<close>

fun split_from :: "char \<Rightarrow> string \<Rightarrow> string \<Rightarrow> string list" where
  "split_from c cur [] = [rev cur]"
| "split_from c cur (x # xs) =
     (if x = c then rev cur # split_from c [] xs else split_from c (x # cur) xs)"

definition strings_Split :: "string \<Rightarrow> char \<Rightarrow> string list" where
  "strings_Split s sep = split_from sep [] s"

text \<open>
  A JSON string literal as \<^verbatim>\<open>encoding/json\<close> writes it, for ASCII text: the quote and the
  backslash are escaped with a backslash, newline, carriage return and tab become
  \<^verbatim>\<open>\n\<close>, \<^verbatim>\<open>\r\<close>, \<^verbatim>\<open>\t\<close>, the other control characters and \<^verbatim>\<open><\<close>, \<^verbatim>\<open>>\<close>, \<^verbatim>\<open>&\<close> become
  \<^verbatim>\<open>\u00XX\<close> (the Go release of the repository; from Go 1.22 on backspace and form feed
  are written \<^verbatim>\<open>\b\<close> and \<^verbatim>\<open>\f\<close>). Bytes from 128 on are copied: outside ASCII the
  definition is exact only for valid UTF-8 without the code points U+2028 and U+2029,
  which the library escapes, as it replaces invalid UTF-8 by U+FFFD. No property below
  depends on the bytes of an escaped character.
\<close>

definition hex_digit :: "nat \<Rightarrow> char" where
  "hex_digit n = ''0123456789abcdef'' ! (n mod 16)"

definition json_escape :: "char \<Rightarrow> string" where
  "json_escape c =
     (if c = CHR 0x22 \<or> c = CHR 0x5C then [CHR 0x5C, c]
      else if c = CHR 0x0A then [CHR 0x5C, CHR ''n'']
      else if c = CHR 0x0D then [CHR 0x5C, CHR ''r'']
      else if c = CHR 0x09 then [CHR 0x5C, CHR ''t'']
      else if (of_char c :: nat) < 32 \<or> c = CHR ''<'' \<or> c = CHR ''>'' \<or> c = CHR ''&''
        then [CHR 0x5C, CHR ''u'', CHR ''0'', CHR ''0'',
              hex_digit (of_char c div 16), hex_digit (of_char c)]
      else [c])"

definition json_quote :: "string \<Rightarrow> string" where
  "json_quote s = CHR 0x22 # concat (map json_escape s) @ [CHR 0x22]"

fun join_comma :: "string list \<Rightarrow> string" where
  "join_comma [] = []"
| "join_comma [x] = x"
| "join_comma (x # y # ys) = x @ CHR '','' # join_comma (y # ys)"

text \<open>The compact text of a JSON tree: no spaces, no line breaks between the tokens.\<close>

fun render :: "json \<Rightarrow> string" where
  "render JNull = ''null''"
| "render (JBool b) = (if b then ''true'' else ''false'')"
| "render (JNumber i) = fmt_int i"
| "render (JString s) = json_quote s"
| "render (JArray xs) = ''['' @ join_comma (map render xs) @ '']''"
| "render (JObject kvs) =
     ''{'' @ join_comma (map (\<lambda>kv. json_quote (fst kv) @ '':'' @ render (snd kv)) kvs) @ ''}''"

text \<open>
  The encoding of a value held in an \<^verbatim>\<open>interface{}\<close>. The elements of a slice are encoded
  from left to right and the first failure ends the encoding.
\<close>

fun marshal_goval :: "goval \<Rightarrow> error + json"
  and marshal_govals :: "goval list \<Rightarrow> error + json list" where
  "marshal_goval GNil = Inr JNull"
| "marshal_goval (GBool b) = Inr (JBool b)"
| "marshal_goval (GInt i) = Inr (JNumber i)"
| "marshal_goval (GString s) = Inr (JString s)"
| "marshal_goval (GSlice xs) =
     (case marshal_govals xs of Inl e \<Rightarrow> Inl e | Inr js \<Rightarrow> Inr (JArray js))"
| "marshal_goval (GUnsupported t) = Inl (UnsupportedTypeError t)"
| "marshal_govals [] = Inr []"
| "marshal_govals (x # xs) =
     (case marshal_goval x of
        Inl e \<Rightarrow> Inl e
      | Inr j \<Rightarrow> (case marshal_govals xs of Inl e \<Rightarrow> Inl e | Inr js \<Rightarrow> Inr (j # js)))"

text \<open>
  A \<^verbatim>\<open>for k, v := range m\<close> loop over a Go map visits every key once, in an order the
  runtime chooses anew for each loop. The order is a parameter of the model: \<open>ks\<close> is the
  order of one loop, \<open>iterates ks m\<close> says it is an order the runtime may choose.
\<close>

definition range_map :: "'k list \<Rightarrow> ('k \<rightharpoonup> 'v) \<Rightarrow> ('k \<Rightarrow> 'v \<Rightarrow> 'a \<Rightarrow> 'a) \<Rightarrow> 'a \<Rightarrow> 'a" where
  "range_map ks m body acc =
     fold (\<lambda>k a. case m k of None \<Rightarrow> a | Some v \<Rightarrow> body k v a) ks acc"

definition iterates :: "'k list \<Rightarrow> ('k \<rightharpoonup> 'v) \<Rightarrow> bool" where
  "iterates ks m \<longleftrightarrow> distinct ks \<and> set ks = dom m"

text \<open>\<^verbatim>\<open>m[k]\<close> on a \<^verbatim>\<open>map[string]string\<close>: the empty string for a missing key.\<close>

definition index_string :: "(string \<rightharpoonup> string) \<Rightarrow> string \<Rightarrow> string" where
  "index_string m k = (case m k of None \<Rightarrow> [] | Some v \<Rightarrow> v)"

section \<open>Byte streams\<close>

text \<open>
  An \<^verbatim>\<open>io.Writer\<close> is the nil interface, the process's standard output or another stream,
  each stream apart from the others. A stream holds the bytes it has accepted. It may
  have a limit on how many it accepts in all: a write that does not fit is cut at the
  limit and reports \<^verbatim>\<open>io.ErrShortWrite\<close>. It may be in a failed state: then it accepts
  nothing and reports its error on every write.
\<close>

datatype writer = NilWriter | Stdout | Sink nat

record world =
  written :: "writer \<Rightarrow> string"
  limit :: "writer \<Rightarrow> nat option"
  fault :: "writer \<Rightarrow> write_error option"

text \<open>The \<^verbatim>\<open>Write\<close> method of a stream: the number of bytes accepted and the error, if any.\<close>

definition stream_Write :: "writer \<Rightarrow> string \<Rightarrow> world \<Rightarrow> (nat \<times> write_error option) \<times> world" where
  "stream_Write sink str w =
     (case fault w sink of
        Some err \<Rightarrow> ((0, Some err), w)
      | None \<Rightarrow>
          (let n = (case limit w sink of
                      None \<Rightarrow> length str
                    | Some l \<Rightarrow> min (length str) (l - length (written w sink)))
           in ((n, if n < length str then Some ErrShortWrite else None),
               w\<lparr>written := (written w)(sink := written w sink @ take n str)\<rparr>)))"

text \<open>
  \<^verbatim>\<open>io.WriteString\<close> calls the \<^verbatim>\<open>Write\<close> method of the writer; on the nil interface the call
  panics. A writer whose method panics behaves like the nil one.
\<close>

definition io_WriteString ::
    "writer \<Rightarrow> string \<Rightarrow> world \<Rightarrow> ((nat \<times> write_error option) \<times> world) result" where
  "io_WriteString sink str w =
     (if sink = NilWriter then Panic else Return (stream_Write sink str w))"

text \<open>A stream that takes every write in full.\<close>

definition accepts_all :: "world \<Rightarrow> writer \<Rightarrow> bool" where
  "accepts_all w h \<longleftrightarrow> limit w h = None \<and> fault w h = None"

text \<open>\<^verbatim>\<open>fmt.Printf\<close> writes the formatted text to standard output; its results are dropped.\<close>

definition fmt_Printf :: "string \<Rightarrow> world \<Rightarrow> world" where
  "fmt_Printf text w = snd (stream_Write Stdout text w)"

section \<open>The environment snapshot\<close>

text \<open>
  \<^verbatim>\<open>init\<close>: the loop over \<^verbatim>\<open>os.Environ()\<close>, starting from the empty map; \<open>env_step\<close> is its
  body, which stores an entry that splits into two parts at \<^verbatim>\<open>=\<close> and skips any other.
\<close>

definition env_step :: "string \<Rightarrow> (string \<rightharpoonup> string) \<Rightarrow> (string \<rightharpoonup> string)" where
  "env_step eachValue envMap =
     (case strings_Split eachValue CHR ''='' of
        [k, v] \<Rightarrow> envMap(k \<mapsto> v)
      | _ \<Rightarrow> envMap)"

definition init :: "string list \<Rightarrow> (string \<rightharpoonup> string)" where
  "init envVars = fold env_step envVars Map.empty"

section \<open>The data model\<close>

type_synonym MetricUnit = string

definition UnitSeconds :: MetricUnit where "UnitSeconds = ''Seconds''"
definition UnitMicroseconds :: MetricUnit where "UnitMicroseconds = ''Microseconds''"
definition UnitMilliseconds :: MetricUnit where "UnitMilliseconds = ''Milliseconds''"
definition UnitBytes :: MetricUnit where "UnitBytes = ''Bytes''"
definition UnitKilobytes :: MetricUnit where "UnitKilobytes = ''Kilobytes''"
definition UnitMegabytes :: MetricUnit where "UnitMegabytes = ''Megabytes''"
definition UnitGigabytes :: MetricUnit where "UnitGigabytes = ''Gigabytes''"
definition UnitTerabytes :: MetricUnit where "UnitTerabytes = ''Terabytes''"
definition UnitBits :: MetricUnit where "UnitBits = ''Bits''"
definition UnitKilobits :: MetricUnit where "UnitKilobits = ''Kilobits''"
definition UnitMegabits :: MetricUnit where "UnitMegabits = ''Megabits''"
definition UnitGigabits :: MetricUnit where "UnitGigabits = ''Gigabits''"
definition UnitTerabits :: MetricUnit where "UnitTerabits = ''Terabits''"
definition UnitPercent :: MetricUnit where "UnitPercent = ''Percent''"
definition UnitCount :: MetricUnit where "UnitCount = ''Count''"
definition UnitBytesPerSecond :: MetricUnit where "UnitBytesPerSecond = ''Bytes/Second''"
definition UnitKilobytesPerSecond :: MetricUnit where "UnitKilobytesPerSecond = ''Kilobytes/Second''"
definition UnitMegabytesPerSecond :: MetricUnit where "UnitMegabytesPerSecond = ''Megabytes/Second''"
definition UnitGigabytesPerSecond :: MetricUnit where "UnitGigabytesPerSecond = ''Gigabytes/Second''"
definition UnitTerabytesPerSecond :: MetricUnit where "UnitTerabytesPerSecond = ''Terabytes/Second''"
definition UnitBitsPerSecond :: MetricUnit where "UnitBitsPerSecond = ''Bits/Second''"
definition UnitKilobitsPerSecond :: MetricUnit where "UnitKilobitsPerSecond = ''Kilobits/Second''"
definition UnitMegabitsPerSecond :: MetricUnit where "UnitMegabitsPerSecond = ''Megabits/Second''"
definition UnitGigabitsPerSecond :: MetricUnit where "UnitGigabitsPerSecond = ''Gigabits/Second''"
definition UnitTerabitsPerSecond :: MetricUnit where "UnitTerabitsPerSecond = ''Terabits/Second''"
definition UnitCountPerSecond :: MetricUnit where "UnitCountPerSecond = ''Count/Second''"
definition UnitNone :: MetricUnit where "UnitNone = ''None''"

record MetricValue =
  Value :: goval
  Unit :: MetricUnit

record MetricDirective =
  Dimensions :: "string \<rightharpoonup> string"
  Metrics :: "string \<rightharpoonup> MetricValue"
  namespace :: string

text \<open>
  Objects reached through pointers live in a store: a pointer is an address, \<open>None\<close> at
  an address means that no object is there (the pointer is nil). The field \<open>metrics\<close>
  holds the addresses of the directives; \<open>properties\<close> is \<open>None\<close> for the nil map. Maps
  are held by value: that a Go map handed to a constructor or to \<^verbatim>\<open>NewMetricDirective\<close> is
  shared with the caller, who may change it later, is not modelled; the properties below
  speak of the state of one instance right after a call.
\<close>

type_synonym addr = nat

record EmbeddedMetric =
  metrics :: "addr list"
  properties :: "(string \<rightharpoonup> goval) option"

record store =
  directives :: "addr \<rightharpoonup> MetricDirective"
  embedded :: "addr \<rightharpoonup> EmbeddedMetric"

text \<open>
  Modelled from the spec: the struct types \<^verbatim>\<open>emfAWS\<close>, \<^verbatim>\<open>emfAWSCloudWatchMetricsElem\<close> and
  \<^verbatim>\<open>emfAWSCloudWatchMetricsElemMetricsElem\<close> are used by \<^verbatim>\<open>MarshalJSON\<close> but declared in
  a file that is not among the sources. Their fields are the ones \<^verbatim>\<open>MarshalJSON\<close> sets;
  the JSON member names and their order are those of the shape the spec gives for
  \<^verbatim>\<open>_aws\<close>.
\<close>

record emfAWSCloudWatchMetricsElemMetricsElem =
  elem_Name :: string
  elem_Unit :: string

record emfAWSCloudWatchMetricsElem =
  cw_Dimensions :: "string list list"
  cw_Namespace :: string
  cw_Metrics :: "emfAWSCloudWatchMetricsElemMetricsElem list"

record emfAWS =
  Timestamp :: int
  CloudWatchMetrics :: "emfAWSCloudWatchMetricsElem list"

definition json_MetricsElem :: "emfAWSCloudWatchMetricsElemMetricsElem \<Rightarrow> json" where
  "json_MetricsElem m = JObject [(''Name'', JString (elem_Name m)), (''Unit'', JString (elem_Unit m))]"

definition json_CloudWatchMetricsElem :: "emfAWSCloudWatchMetricsElem \<Rightarrow> json" where
  "json_CloudWatchMetricsElem e =
     JObject [(''Namespace'', JString (cw_Namespace e)),
              (''Dimensions'', JArray (map (\<lambda>ds. JArray (map JString ds)) (cw_Dimensions e))),
              (''Metrics'', JArray (map json_MetricsElem (cw_Metrics e)))]"

definition json_emfAWS :: "emfAWS \<Rightarrow> json" where
  "json_emfAWS a =
     JObject [(''Timestamp'', JNumber (Timestamp a)),
              (''CloudWatchMetrics'', JArray (map json_CloudWatchMetricsElem (CloudWatchMetrics a)))]"

section \<open>The operations\<close>

text \<open>
  \<^verbatim>\<open>WithProperty\<close>: a nil property map is replaced by a new one, the entry is stored and the
  receiver is returned. A receiver that points at no object panics when it is
  dereferenced.
\<close>

definition WithProperty :: "store \<Rightarrow> addr \<Rightarrow> string \<Rightarrow> goval \<Rightarrow> (addr \<times> store) result" where
  "WithProperty s em key val =
     (case embedded s em of
        None \<Rightarrow> Panic
      | Some e \<Rightarrow>
          let props = (case properties e of None \<Rightarrow> Map.empty | Some p \<Rightarrow> p)
          in Return (em, s\<lparr>embedded := (embedded s)(em \<mapsto> e\<lparr>properties := Some (props(key \<mapsto> val))\<rparr>)\<rparr>))"

text \<open>
  \<^verbatim>\<open>NewMetricDirective\<close>: \<open>md\<close> is the address at which the runtime allocates the new
  directive; \<open>dimensions\<close> is \<open>None\<close> for a nil map. The directive is appended to the
  receiver's list and its address returned.
\<close>

definition NewMetricDirective ::
    "addr \<Rightarrow> store \<Rightarrow> addr \<Rightarrow> string \<Rightarrow> (string \<rightharpoonup> string) option \<Rightarrow> (addr \<times> store) result" where
  "NewMetricDirective md s em ns dimensions =
     (let d = \<lparr>Dimensions = (case dimensions of None \<Rightarrow> Map.empty | Some ds \<Rightarrow> ds),
               Metrics = Map.empty,
               namespace = ns\<rparr>;
          s1 = s\<lparr>directives := (directives s)(md \<mapsto> d)\<rparr>
      in case embedded s1 em of
           None \<Rightarrow> Panic
         | Some e \<Rightarrow>
             Return (md, s1\<lparr>embedded := (embedded s1)(em \<mapsto> e\<lparr>metrics := metrics e @ [md]\<rparr>)\<rparr>))"

text \<open>The constructors allocate the instance at \<open>a\<close> and return it with a nil error.\<close>

definition NewEmbeddedMetric :: "addr \<Rightarrow> store \<Rightarrow> (addr \<times> error option) \<times> store" where
  "NewEmbeddedMetric a s =
     ((a, None), s\<lparr>embedded := (embedded s)(a \<mapsto> \<lparr>metrics = [], properties = Some Map.empty\<rparr>)\<rparr>)"

definition NewEmbeddedMetricWithProperties ::
    "addr \<Rightarrow> store \<Rightarrow> (string \<rightharpoonup> goval) option \<Rightarrow> (addr \<times> error option) \<times> store" where
  "NewEmbeddedMetricWithProperties a s props =
     ((a, None),
      s\<lparr>embedded := (embedded s)(a \<mapsto>
           \<lparr>metrics = [],
            properties = Some (case props of None \<Rightarrow> Map.empty | Some p \<Rightarrow> p)\<rparr>)\<rparr>)"

subsection \<open>MarshalJSON\<close>

text \<open>
  The values \<^verbatim>\<open>jsonMap\<close> holds: what callers supplied, and the pointer to the \<^verbatim>\<open>emfAWS\<close>
  struct. The map itself is kept as the list of its entries, each key once; storing
  under a key replaces the value of an entry or adds one (\<open>AList.update\<close>).
\<close>

datatype jvalue = Iface goval | AwsRef emfAWS

type_synonym jsonMap = "(string \<times> jvalue) list"

text \<open>
  The orders of the map loops of one \<^verbatim>\<open>MarshalJSON\<close> call: of the loop over the
  properties, and of the two loops over the metrics and the dimensions of the directive
  at each position of \<open>metrics\<close>.
\<close>

record schedule =
  properties_order :: "string list"
  metrics_order :: "nat \<Rightarrow> string list"
  dimensions_order :: "nat \<Rightarrow> string list"

text \<open>The body of the loop over the directives, for one directive.\<close>

definition encode_directive ::
    "string list \<Rightarrow> string list \<Rightarrow> MetricDirective \<Rightarrow> jsonMap
       \<Rightarrow> jsonMap \<times> emfAWSCloudWatchMetricsElem" where
  "encode_directive mks dks eachDirective jsonMap =
     (let metricsElem = \<lparr>cw_Dimensions = [], cw_Namespace = namespace eachDirective, cw_Metrics = []\<rparr>;
          st1 = range_map mks (Metrics eachDirective)
                  (\<lambda>eachKey eachMetric st.
                     (AList.update eachKey (Iface (Value eachMetric)) (fst st),
                      (snd st)\<lparr>cw_Metrics := cw_Metrics (snd st) @
                         [\<lparr>elem_Name = eachKey, elem_Unit = Unit eachMetric\<rparr>]\<rparr>))
                  (jsonMap, metricsElem);
          st2 = range_map dks (Dimensions eachDirective)
                  (\<lambda>eachKey eachValue st.
                     (AList.update eachKey (Iface (GString eachValue)) (fst st),
                      (snd st)\<lparr>cw_Dimensions := cw_Dimensions (snd st) @ [[eachKey]]\<rparr>))
                  st1
      in st2)"

text \<open>
  The loop over \<open>em.metrics\<close>; \<open>i\<close> is the position of the directive being encoded, the
  accumulator holds \<^verbatim>\<open>jsonMap\<close> and \<^verbatim>\<open>cwMetrics.CloudWatchMetrics\<close>.
\<close>

fun encode_directives ::
    "store \<Rightarrow> schedule \<Rightarrow> nat \<Rightarrow> addr list \<Rightarrow> jsonMap \<times> emfAWSCloudWatchMetricsElem list
       \<Rightarrow> (jsonMap \<times> emfAWSCloudWatchMetricsElem list) result" where
  "encode_directives s sched i [] acc = Return acc"
| "encode_directives s sched i (a # as) acc =
     (case directives s a of
        None \<Rightarrow> Panic
      | Some eachDirective \<Rightarrow>
          let r = encode_directive (metrics_order sched i) (dimensions_order sched i)
                    eachDirective (fst acc)
          in encode_directives s sched (Suc i) as (fst r, snd acc @ [snd r]))"

text \<open>
  The map \<^verbatim>\<open>MarshalJSON\<close> hands to \<^verbatim>\<open>json.Marshal\<close>. \<open>envMap\<close> is the environment snapshot,
  \<open>now\<close> the reading of \<^verbatim>\<open>time.Now().UnixNano()\<close> at this call; Go's integer division
  truncates towards zero (\<open>sdiv\<close>), and the conversion to \<^verbatim>\<open>int\<close> keeps the value on a
  64-bit platform.
\<close>

definition MarshalJSON_jsonMap ::
    "(string \<rightharpoonup> string) \<Rightarrow> int \<Rightarrow> schedule \<Rightarrow> store \<Rightarrow> addr \<Rightarrow> jsonMap result" where
  "MarshalJSON_jsonMap envMap now sched s em =
     (case embedded s em of
        None \<Rightarrow> Panic
      | Some e \<Rightarrow>
          let jsonMap0 =
                [(''log_group_name'', Iface (GString (index_string envMap ''AWS_LAMBDA_LOG_GROUP_NAME''))),
                 (''log_steam_name'', Iface (GString (index_string envMap ''AWS_LAMBDA_LOG_STREAM_NAME'')))];
              jsonMap1 =
                range_map (properties_order sched)
                  (case properties e of None \<Rightarrow> Map.empty | Some p \<Rightarrow> p)
                  (\<lambda>eachKey eachValue jm. AList.update eachKey (Iface eachValue) jm)
                  jsonMap0;
              ts = now sdiv 1000000
          in case encode_directives s sched 0 (metrics e) (jsonMap1, []) of
               Panic \<Rightarrow> Panic
             | Return r \<Rightarrow>
                 Return (AList.update ''_aws''
                           (AwsRef \<lparr>Timestamp = ts, CloudWatchMetrics = snd r\<rparr>) (fst r)))"

text \<open>
  \<^verbatim>\<open>json.Marshal\<close> of a \<^verbatim>\<open>map[string]interface{}\<close>: the members in the order of their keys
  (compared bytewise), each value encoded in turn; the first failure is the result.
\<close>

fun marshal_jvalue :: "jvalue \<Rightarrow> error + json" where
  "marshal_jvalue (Iface v) = marshal_goval v"
| "marshal_jvalue (AwsRef a) = Inr (json_emfAWS a)"

fun marshal_members :: "(string \<times> jvalue) list \<Rightarrow> error + (string \<times> json) list" where
  "marshal_members [] = Inr []"
| "marshal_members (kv # kvs) =
     (case marshal_jvalue (snd kv) of
        Inl e \<Rightarrow> Inl e
      | Inr j \<Rightarrow>
          (case marshal_members kvs of Inl e \<Rightarrow> Inl e | Inr js \<Rightarrow> Inr ((fst kv, j) # js)))"

definition json_Marshal_map :: "jsonMap \<Rightarrow> error + json" where
  "json_Marshal_map jm =
     (case marshal_members (sort_key fst jm) of Inl e \<Rightarrow> Inl e | Inr ms \<Rightarrow> Inr (JObject ms))"

text \<open>\<^verbatim>\<open>MarshalJSON\<close>, with the document as a tree and as the bytes returned.\<close>

definition MarshalJSON_tree ::
    "(string \<rightharpoonup> string) \<Rightarrow> int \<Rightarrow> schedule \<Rightarrow> store \<Rightarrow> addr \<Rightarrow> (error + json) result" where
  "MarshalJSON_tree envMap now sched s em =
     (case MarshalJSON_jsonMap envMap now sched s em of
        Panic \<Rightarrow> Panic
      | Return jm \<Rightarrow> Return (json_Marshal_map jm))"

definition MarshalJSON ::
    "(string \<rightharpoonup> string) \<Rightarrow> int \<Rightarrow> schedule \<Rightarrow> store \<Rightarrow> addr \<Rightarrow> (error + string) result" where
  "MarshalJSON envMap now sched s em =
     (case MarshalJSON_tree envMap now sched s em of
        Panic \<Rightarrow> Panic
      | Return (Inl e) \<Rightarrow> Return (Inl e)
      | Return (Inr j) \<Rightarrow> Return (Inr (render j)))"

text \<open>
  \<^verbatim>\<open>json.Marshal(em)\<close>: for a nil pointer the encoder writes \<^verbatim>\<open>null\<close> and does not call the
  method; otherwise it calls the \<^verbatim>\<open>MarshalJSON\<close> method of \<open>em\<close>, wraps its error in a
  \<^verbatim>\<open>MarshalerError\<close> and otherwise returns its bytes (they are compact JSON already).
\<close>

definition json_Marshal ::
    "(string \<rightharpoonup> string) \<Rightarrow> int \<Rightarrow> schedule \<Rightarrow> store \<Rightarrow> addr \<Rightarrow> (error + string) result" where
  "json_Marshal envMap now sched s em =
     (case embedded s em of
        None \<Rightarrow> Return (Inr ''null'')
      | Some e \<Rightarrow>
          (case MarshalJSON envMap now sched s em of
             Panic \<Rightarrow> Panic
           | Return (Inl err) \<Rightarrow> Return (Inl (MarshalerError ''*cloudwatch.EmbeddedMetric'' err))
           | Return (Inr b) \<Rightarrow> Return (Inr b)))"

subsection \<open>PublishToSink and Publish\<close>

definition dimension_warning :: "nat \<Rightarrow> string" where
  "dimension_warning n =
     ''DimensionSet for structured metric must not have more than 9 elements. Count: ''
       @ fmt_int (int n)"

text \<open>The precondition loop: one warning on standard output for each oversized directive.\<close>

fun check_preconditions :: "store \<Rightarrow> addr list \<Rightarrow> world \<Rightarrow> world result" where
  "check_preconditions s [] w = Return w"
| "check_preconditions s (a # as) w =
     (case directives s a of
        None \<Rightarrow> Panic
      | Some eachDirective \<Rightarrow>
          check_preconditions s as
            (if card (dom (Dimensions eachDirective)) > 9
             then fmt_Printf (dimension_warning (card (dom (Dimensions eachDirective)))) w
             else w))"

text \<open>The loop over \<open>additionalProperties\<close>, in the order \<open>ks\<close>; \<open>em\<close> is reassigned in each round.\<close>

fun merge_properties ::
    "string list \<Rightarrow> (string \<rightharpoonup> goval) \<Rightarrow> store \<Rightarrow> addr \<Rightarrow> (addr \<times> store) result" where
  "merge_properties [] additionalProperties s em = Return (em, s)"
| "merge_properties (eachKey # ks) additionalProperties s em =
     (case additionalProperties eachKey of
        None \<Rightarrow> merge_properties ks additionalProperties s em
      | Some eachValue \<Rightarrow>
          (case WithProperty s em eachKey eachValue of
             Panic \<Rightarrow> Panic
           | Return r \<Rightarrow> merge_properties ks additionalProperties (snd r) (fst r)))"

text \<open>
  \<^verbatim>\<open>PublishToSink\<close>. Beside the arguments of the Go method the model takes the environment
  snapshot, the clock reading, the loop orders (\<open>ks\<close> for the loop over
  \<open>additionalProperties\<close>) and the state: the store and the byte streams. The method has
  no result; the model returns the new state, or \<open>Panic\<close> where the method panics: on a
  nil receiver, a nil directive or a nil sink.
\<close>

definition PublishToSink ::
    "(string \<rightharpoonup> string) \<Rightarrow> int \<Rightarrow> schedule \<Rightarrow> string list \<Rightarrow> store \<times> world
       \<Rightarrow> addr \<Rightarrow> (string \<rightharpoonup> goval) \<Rightarrow> writer \<Rightarrow> (store \<times> world) result" where
  "PublishToSink envMap now sched ks st em additionalProperties sink =
     (case embedded (fst st) em of
        None \<Rightarrow> Panic
      | Some e \<Rightarrow>
          (case check_preconditions (fst st) (metrics e) (snd st) of
             Panic \<Rightarrow> Panic
           | Return w1 \<Rightarrow>
               (case merge_properties ks additionalProperties (fst st) em of
                  Panic \<Rightarrow> Panic
                | Return r \<Rightarrow>
                    (case json_Marshal envMap now sched (snd r) (fst r) of
                       Panic \<Rightarrow> Panic
                     | Return rawJSON \<Rightarrow>
                         (case (case rawJSON of
                                  Inr bytes \<Rightarrow> io_WriteString sink bytes w1
                                | Inl rawJSONErr \<Rightarrow>
                                    io_WriteString sink
                                      (''Error publishing metric: '' @ error_Error rawJSONErr) w1) of
                            Panic \<Rightarrow> Panic
                          | Return wr \<Rightarrow>
                              Return (snd r,
                                (case snd (fst wr) of
                                   None \<Rightarrow> snd wr
                                 | Some writtenErr \<Rightarrow>
                                     fmt_Printf (''ERROR: '' @ fmt_GoSyntax writtenErr)
                                       (snd wr))))))))"


subsection \<open>Well-formed states and admissible loop orders\<close>

text \<open>The instance exists and so does every directive it lists.\<close>

definition live :: "store \<Rightarrow> addr \<Rightarrow> bool" where
  "live s em \<longleftrightarrow>
     (case embedded s em of
        None \<Rightarrow> False
      | Some e \<Rightarrow> list_all (\<lambda>a. directives s a \<noteq> None) (metrics e))"

text \<open>The property map of an instance, empty for the nil map.\<close>

definition props_of :: "store \<Rightarrow> addr \<Rightarrow> (string \<rightharpoonup> goval)" where
  "props_of s em =
     (case embedded s em of
        None \<Rightarrow> Map.empty
      | Some e \<Rightarrow> (case properties e of None \<Rightarrow> Map.empty | Some p \<Rightarrow> p))"

text \<open>The directives of an instance, in the order of \<open>metrics\<close>; missing objects are left out.\<close>

definition directives_of :: "store \<Rightarrow> addr \<Rightarrow> MetricDirective list" where
  "directives_of s em =
     (case embedded s em of
        None \<Rightarrow> []
      | Some e \<Rightarrow> List.map_filter (directives s) (metrics e))"

text \<open>Every loop order of the schedule is one the runtime may choose in this state.\<close>

definition admissible :: "schedule \<Rightarrow> store \<Rightarrow> addr \<Rightarrow> bool" where
  "admissible sched s em \<longleftrightarrow>
     iterates (properties_order sched) (props_of s em) \<and>
     list_all (\<lambda>i. iterates (metrics_order sched i) (Metrics (directives_of s em ! i)) \<and>
                   iterates (dimensions_order sched i) (Dimensions (directives_of s em ! i)))
       [0 ..< length (directives_of s em)]"

subsection \<open>What the encoder is to produce\<close>

text \<open>
  The element of \<^verbatim>\<open>CloudWatchMetrics\<close> for one directive, given the orders \<open>mks\<close> and \<open>dks\<close>
  in which its metrics and its dimensions are visited: one name and unit for each metric,
  one array of one name for each dimension.
\<close>

definition directive_elem ::
    "string list \<Rightarrow> string list \<Rightarrow> MetricDirective \<Rightarrow> emfAWSCloudWatchMetricsElem" where
  "directive_elem mks dks d =
     \<lparr>cw_Dimensions = List.map_filter (\<lambda>k. map_option (\<lambda>v. [k]) (Dimensions d k)) dks,
      cw_Namespace = namespace d,
      cw_Metrics =
        List.map_filter
          (\<lambda>k. map_option (\<lambda>v. \<lparr>elem_Name = k, elem_Unit = Unit v\<rparr>) (Metrics d k)) mks\<rparr>"

definition directive_elems ::
    "schedule \<Rightarrow> nat \<Rightarrow> MetricDirective list \<Rightarrow> emfAWSCloudWatchMetricsElem list" where
  "directive_elems sched i ds =
     map (\<lambda>p. directive_elem (metrics_order sched (fst p)) (dimensions_order sched (fst p)) (snd p))
       (List.enumerate i ds)"

text \<open>
  The flat merge by key name, in the words of the spec: the two reserved keys, then the
  properties, then for each directive in creation order its metrics and then its
  dimensions; \<open>m ++ n\<close> is the map in which the entries of \<open>n\<close> replace those of \<open>m\<close>.
\<close>

definition reserved_fields :: "(string \<rightharpoonup> string) \<Rightarrow> (string \<rightharpoonup> jvalue)" where
  "reserved_fields envMap =
     [''log_group_name'' \<mapsto> Iface (GString (index_string envMap ''AWS_LAMBDA_LOG_GROUP_NAME'')),
      ''log_steam_name'' \<mapsto> Iface (GString (index_string envMap ''AWS_LAMBDA_LOG_STREAM_NAME''))]"

definition flat_directive :: "MetricDirective \<Rightarrow> (string \<rightharpoonup> jvalue)" where
  "flat_directive d =
     (\<lambda>k. map_option (\<lambda>v. Iface (Value v)) (Metrics d k)) ++
     (\<lambda>k. map_option (\<lambda>v. Iface (GString v)) (Dimensions d k))"

definition flat_merge ::
    "(string \<rightharpoonup> string) \<Rightarrow> (string \<rightharpoonup> goval) \<Rightarrow> MetricDirective list \<Rightarrow> (string \<rightharpoonup> jvalue)" where
  "flat_merge envMap props ds =
     foldl (\<lambda>m d. m ++ flat_directive d)
       (reserved_fields envMap ++ (\<lambda>k. map_option Iface (props k))) ds"

text \<open>Reading an encoded tree: the member of an object under a name, the elements of an array.\<close>

fun member :: "string \<Rightarrow> json \<Rightarrow> json option" where
  "member k (JObject ms) = map_of ms k"
| "member k j = None"

fun elements :: "json \<Rightarrow> json list" where
  "elements (JArray xs) = xs"
| "elements j = []"

text \<open>The keys a caller supplied: of the properties and of the metrics and dimensions.\<close>

definition caller_keys :: "store \<Rightarrow> addr \<Rightarrow> string set" where
  "caller_keys s em =
     dom (props_of s em) \<union>
     (\<Union>d \<in> set (directives_of s em). dom (Metrics d) \<union> dom (Dimensions d))"

section \<open>Example states\<close>

text \<open>
  The scenario of the spec: one instance at address 2 with the property \<^verbatim>\<open>requestId\<close> and
  one directive, at address 10, with namespace \<^verbatim>\<open>MyService\<close>, the dimension \<^verbatim>\<open>Stage\<close> and the
  metric \<^verbatim>\<open>Latency\<close>.
\<close>

definition ex_store :: store where
  "ex_store =
     \<lparr>directives =
        [10 \<mapsto> \<lparr>Dimensions = [''Stage'' \<mapsto> ''prod''],
                 Metrics = [''Latency'' \<mapsto> \<lparr>Value = GInt 42, Unit = UnitMilliseconds\<rparr>],
                 namespace = ''MyService''\<rparr>],
      embedded =
        [2 \<mapsto> \<lparr>metrics = [10], properties = Some [''requestId'' \<mapsto> GString ''abc-123'']\<rparr>]\<rparr>"

definition ex_sched :: schedule where
  "ex_sched =
     \<lparr>properties_order = [''requestId''],
      metrics_order = (\<lambda>i. [''Latency'']),
      dimensions_order = (\<lambda>i. [''Stage''])\<rparr>"

text \<open>An environment in which the value of the log group variable contains \<^verbatim>\<open>=\<close>.\<close>

definition ex_environ :: "string list" where
  "ex_environ =
     [''AWS_LAMBDA_LOG_GROUP_NAME=/aws/lambda/a=b'',
      ''AWS_LAMBDA_LOG_STREAM_NAME=2020/01/31/latest'',
      ''HOME=/root'',
      ''EMPTY='']"

text \<open>The tree expected for \<open>ex_store\<close> in that environment, with the timestamp \<open>ts\<close>.\<close>

definition ex_json :: "int \<Rightarrow> json" where
  "ex_json ts =
     JObject
       [(''Latency'', JNumber 42),
        (''Stage'', JString ''prod''),
        (''_aws'', JObject
           [(''Timestamp'', JNumber ts),
            (''CloudWatchMetrics'', JArray
               [JObject [(''Namespace'', JString ''MyService''),
                         (''Dimensions'', JArray [JArray [JString ''Stage'']]),
                         (''Metrics'', JArray [JObject [(''Name'', JString ''Latency''),
                                                       (''Unit'', JString ''Milliseconds'')]])]])]),
        (''log_group_name'', JString []),
        (''log_steam_name'', JString ''2020/01/31/latest''),
        (''requestId'', JString ''abc-123'')]"

text \<open>The unit recorded for a metric of a directive.\<close>

definition metric_unit :: "MetricDirective \<Rightarrow> string \<Rightarrow> string" where
  "metric_unit d k = (case Metrics d k of None \<Rightarrow> [] | Some v \<Rightarrow> Unit v)"

text \<open>
  An instance whose keys collide, at address 3: the property \<^verbatim>\<open>k\<close> and a property named like
  a reserved key, a first directive with the metric \<^verbatim>\<open>k\<close> and the dimension \<^verbatim>\<open>d\<close>, a second
  one with the metric \<^verbatim>\<open>d\<close> and the dimension \<^verbatim>\<open>k\<close>.
\<close>

definition clash_store :: store where
  "clash_store =
     \<lparr>directives =
        [11 \<mapsto> \<lparr>Dimensions = [''d'' \<mapsto> ''dim1''],
                 Metrics = [''k'' \<mapsto> \<lparr>Value = GInt 1, Unit = UnitCount\<rparr>],
                 namespace = ''A''\<rparr>,
         12 \<mapsto> \<lparr>Dimensions = [''k'' \<mapsto> ''dim2''],
                 Metrics = [''d'' \<mapsto> \<lparr>Value = GInt 2, Unit = UnitCount\<rparr>],
                 namespace = ''B''\<rparr>],
      embedded =
        [3 \<mapsto> \<lparr>metrics = [11, 12],
                properties = Some [''k'' \<mapsto> GString ''prop'',
                                   ''log_group_name'' \<mapsto> GString ''mine'']\<rparr>]\<rparr>"

definition clash_sched :: schedule where
  "clash_sched =
     \<lparr>properties_order = [''log_group_name'', ''k''],
      metrics_order = (\<lambda>i. if i = 0 then [''k''] else [''d'']),
      dimensions_order = (\<lambda>i. if i = 0 then [''d''] else [''k''])\<rparr>"

definition clash_env :: "string \<rightharpoonup> string" where
  "clash_env =
     [''AWS_LAMBDA_LOG_GROUP_NAME'' \<mapsto> ''/aws/lambda/f'',
      ''AWS_LAMBDA_LOG_STREAM_NAME'' \<mapsto> ''s1'']"

definition clash_json :: json where
  "clash_json =
     JObject
       [(''_aws'', JObject
           [(''Timestamp'', JNumber 7),
            (''CloudWatchMetrics'', JArray
               [JObject [(''Namespace'', JString ''A''),
                         (''Dimensions'', JArray [JArray [JString ''d'']]),
                         (''Metrics'', JArray [JObject [(''Name'', JString ''k''),
                                                       (''Unit'', JString ''Count'')]])],
                JObject [(''Namespace'', JString ''B''),
                         (''Dimensions'', JArray [JArray [JString ''k'']]),
                         (''Metrics'', JArray [JObject [(''Name'', JString ''d''),
                                                       (''Unit'', JString ''Count'')]])]])]),
        (''d'', JNumber 2),
        (''k'', JString ''dim2''),
        (''log_group_name'', JString ''mine''),
        (''log_steam_name'', JString ''s1'')]"

text \<open>A new instance at address 4 in an empty store: no property, no directive.\<close>

definition empty_store :: store where
  "empty_store = \<lparr>directives = Map.empty, embedded = Map.empty\<rparr>"

definition new_store :: store where
  "new_store = snd (NewEmbeddedMetric 4 empty_store)"

definition new_sched :: schedule where
  "new_sched = \<lparr>properties_order = [], metrics_order = (\<lambda>i. []), dimensions_order = (\<lambda>i. [])\<rparr>"

text \<open>
  An instance at address 5 with one directive of two metrics and two dimensions, and the
  two orders in which a loop can visit two keys.
\<close>

definition pair_store :: store where
  "pair_store =
     \<lparr>directives =
        [14 \<mapsto> \<lparr>Dimensions = [''x'' \<mapsto> ''1'', ''y'' \<mapsto> ''2''],
                 Metrics = [''a'' \<mapsto> \<lparr>Value = GInt 1, Unit = UnitCount\<rparr>,
                            ''b'' \<mapsto> \<lparr>Value = GInt 2, Unit = UnitBytes\<rparr>],
                 namespace = ''N''\<rparr>],
      embedded = [5 \<mapsto> \<lparr>metrics = [14], properties = None\<rparr>]\<rparr>"

definition pair_sched_ab :: schedule where
  "pair_sched_ab =
     \<lparr>properties_order = [],
      metrics_order = (\<lambda>i. [''a'', ''b'']),
      dimensions_order = (\<lambda>i. [''x'', ''y''])\<rparr>"

definition pair_sched_ba :: schedule where
  "pair_sched_ba =
     \<lparr>properties_order = [],
      metrics_order = (\<lambda>i. [''b'', ''a'']),
      dimensions_order = (\<lambda>i. [''y'', ''x''])\<rparr>"

definition pair_json :: "string list \<Rightarrow> (string \<times> string) list \<Rightarrow> json" where
  "pair_json dims mets =
     JObject
       [(''_aws'', JObject
           [(''Timestamp'', JNumber 0),
            (''CloudWatchMetrics'', JArray
               [JObject [(''Namespace'', JString ''N''),
                         (''Dimensions'', JArray (map (\<lambda>k. JArray [JString k]) dims)),
                         (''Metrics'',
                          JArray (map (\<lambda>m. JObject [(''Name'', JString (fst m)),
                                                      (''Unit'', JString (snd m))]) mets))]])]),
        (''a'', JNumber 1),
        (''b'', JNumber 2),
        (''log_group_name'', JString []),
        (''log_steam_name'', JString []),
        (''x'', JString ''1''),
        (''y'', JString ''2'')]"

text \<open>The member names of an object, in the order in which they are written.\<close>

fun member_names :: "json \<Rightarrow> string list" where
  "member_names (JObject ms) = map fst ms"
| "member_names j = []"

text \<open>
  The text the precondition loop of \<^verbatim>\<open>PublishToSink\<close> prints for an instance: one warning
  for each directive with more than 9 dimensions, in the order of the directives.
\<close>

definition warnings :: "store \<Rightarrow> addr \<Rightarrow> string" where
  "warnings s em =
     concat (map (\<lambda>d. if card (dom (Dimensions d)) > 9
                        then dimension_warning (card (dom (Dimensions d))) else [])
               (directives_of s em))"

text \<open>
  The text \<^verbatim>\<open>PublishToSink\<close> hands to the sink: the encoded record, or the error line when
  the encoding failed.
\<close>

definition publish_line ::
    "(string \<rightharpoonup> string) \<Rightarrow> int \<Rightarrow> schedule \<Rightarrow> store \<Rightarrow> addr \<Rightarrow> string" where
  "publish_line envMap now sched s em =
     (case json_Marshal envMap now sched s em of
        Return (Inr bytes) \<Rightarrow> bytes
      | Return (Inl err) \<Rightarrow> ''Error publishing metric: '' @ error_Error err
      | Panic \<Rightarrow> [])"

text \<open>The report of a failed write: nothing when the write reported no error.\<close>

definition write_report :: "write_error option \<Rightarrow> string" where
  "write_report err =
     (case err of None \<Rightarrow> [] | Some writtenErr \<Rightarrow> ''ERROR: '' @ fmt_GoSyntax writtenErr)"





text \<open>An instance at address 8 with one directive of ten dimensions and one metric.\<close>

definition ten_store :: store where
  "ten_store =
     \<lparr>directives =
        [15 \<mapsto> \<lparr>Dimensions = [''d0'' \<mapsto> ''v0'', ''d1'' \<mapsto> ''v1'', ''d2'' \<mapsto> ''v2'',
                               ''d3'' \<mapsto> ''v3'', ''d4'' \<mapsto> ''v4'', ''d5'' \<mapsto> ''v5'',
                               ''d6'' \<mapsto> ''v6'', ''d7'' \<mapsto> ''v7'', ''d8'' \<mapsto> ''v8'',
                               ''d9'' \<mapsto> ''v9''],
                 Metrics = [''m'' \<mapsto> \<lparr>Value = GInt 1, Unit = UnitCount\<rparr>],
                 namespace = ''Big''\<rparr>],
      embedded = [8 \<mapsto> \<lparr>metrics = [15], properties = Some Map.empty\<rparr>]\<rparr>"

definition ten_names :: "string list" where
  "ten_names = [''d0'', ''d1'', ''d2'', ''d3'', ''d4'', ''d5'', ''d6'', ''d7'', ''d8'', ''d9'']"

definition ten_sched :: schedule where
  "ten_sched =
     \<lparr>properties_order = [],
      metrics_order = (\<lambda>i. [''m'']),
      dimensions_order = (\<lambda>i. ten_names)\<rparr>"

definition ten_json :: json where
  "ten_json =
     JObject
       [(''_aws'', JObject
           [(''Timestamp'', JNumber 0),
            (''CloudWatchMetrics'', JArray
               [JObject [(''Namespace'', JString ''Big''),
                         (''Dimensions'', JArray (map (\<lambda>k. JArray [JString k]) ten_names)),
                         (''Metrics'', JArray [JObject [(''Name'', JString ''m''),
                                                       (''Unit'', JString ''Count'')]])]])]),
        (''d0'', JString ''v0''), (''d1'', JString ''v1''), (''d2'', JString ''v2''),
        (''d3'', JString ''v3''), (''d4'', JString ''v4''), (''d5'', JString ''v5''),
        (''d6'', JString ''v6''), (''d7'', JString ''v7''), (''d8'', JString ''v8''),
        (''d9'', JString ''v9''),
        (''log_group_name'', JString []),
        (''log_steam_name'', JString []),
        (''m'', JNumber 1)]"

text \<open>Empty byte streams of which the stream \<open>Sink 0\<close> accepts 5 bytes in all.\<close>

definition tight_world :: world where
  "tight_world =
     \<lparr>written = (\<lambda>h. []), limit = (\<lambda>h. None)(Sink 0 := Some 5), fault = (\<lambda>h. None)\<rparr>"


section \<open>Loops over maps\<close>

lemma range_map_Nil [simp]: "range_map [] m body acc = acc"
  by (simp add: range_map_def)

lemma range_map_Cons [simp]:
  "range_map (k # ks) m body acc =
     range_map ks m body (case m k of None \<Rightarrow> acc | Some v \<Rightarrow> body k v acc)"
  by (simp add: range_map_def)

lemma range_map_pair:
  "range_map ks m (\<lambda>k v st. (F k v (fst st), G k v (snd st))) (a, b) =
     (range_map ks m F a, range_map ks m G b)"
  by (induction ks arbitrary: a b) (auto split: option.splits)

lemma map_of_range_map_update:
  "map_of (range_map ks m (\<lambda>k v jm. AList.update k (g v) jm) jm0) =
     (\<lambda>x. if x \<in> set ks \<and> m x \<noteq> None then map_option g (m x) else map_of jm0 x)"
proof (induction ks arbitrary: jm0)
  case Nil
  show ?case by simp
next
  case (Cons k ks)
  show ?case
    by (cases "m k") (auto simp: Cons.IH update_conv' fun_eq_iff)
qed

lemma distinct_range_map_update:
  "distinct (map fst jm0) \<Longrightarrow>
   distinct (map fst (range_map ks m (\<lambda>k v jm. AList.update k (g v) jm) jm0))"
  by (induction ks arbitrary: jm0) (auto split: option.splits simp: distinct_update)

lemma range_map_append:
  "range_map ks m (\<lambda>k v xs. xs @ [h k v]) xs0 =
     xs0 @ List.map_filter (\<lambda>k. map_option (h k) (m k)) ks"
  by (induction ks arbitrary: xs0) (auto split: option.splits)

lemma map_filter_iterates:
  "iterates ks m \<Longrightarrow> List.map_filter (\<lambda>k. map_option (h k) (m k)) ks = map (\<lambda>k. h k (the (m k))) ks"
  unfolding iterates_def List.map_filter_def
  by (auto intro!: map_cong filter_True simp: dom_def)


lemma range_map_record_Metrics:
  "range_map ks m (\<lambda>k v me. me\<lparr>cw_Metrics := cw_Metrics me @ [h k v]\<rparr>) me0 =
     me0\<lparr>cw_Metrics := cw_Metrics me0 @ List.map_filter (\<lambda>k. map_option (h k) (m k)) ks\<rparr>"
  by (induction ks arbitrary: me0) (auto split: option.splits)

lemma range_map_record_Dimensions:
  "range_map ks m (\<lambda>k v me. me\<lparr>cw_Dimensions := cw_Dimensions me @ [h k v]\<rparr>) me0 =
     me0\<lparr>cw_Dimensions := cw_Dimensions me0 @ List.map_filter (\<lambda>k. map_option (h k) (m k)) ks\<rparr>"
  by (induction ks arbitrary: me0) (auto split: option.splits)

lemma encode_directive_eq:
  "encode_directive mks dks d jm =
     (range_map dks (Dimensions d) (\<lambda>k v jm. AList.update k (Iface (GString v)) jm)
        (range_map mks (Metrics d) (\<lambda>k v jm. AList.update k (Iface (Value v)) jm) jm),
      directive_elem mks dks d)"
proof -
  let ?FM = "\<lambda>k v jm. AList.update k (Iface (Value v)) jm"
  let ?GM = "\<lambda>k v me. me\<lparr>cw_Metrics := cw_Metrics me @ [\<lparr>elem_Name = k, elem_Unit = Unit v\<rparr>]\<rparr>"
  let ?FD = "\<lambda>k (v::string) jm. AList.update k (Iface (GString v)) jm"
  let ?GD = "\<lambda>k (v::string) me. me\<lparr>cw_Dimensions := cw_Dimensions me @ [[k]]\<rparr>"
  let ?me0 = "\<lparr>cw_Dimensions = [], cw_Namespace = namespace d, cw_Metrics = []\<rparr>"
  have "encode_directive mks dks d jm =
          range_map dks (Dimensions d) (\<lambda>k v st. (?FD k v (fst st), ?GD k v (snd st)))
            (range_map mks (Metrics d) (\<lambda>k v st. (?FM k v (fst st), ?GM k v (snd st))) (jm, ?me0))"
    by (simp add: encode_directive_def Let_def)
  also have "\<dots> = (range_map dks (Dimensions d) ?FD (range_map mks (Metrics d) ?FM jm),
                    range_map dks (Dimensions d) ?GD (range_map mks (Metrics d) ?GM ?me0))"
    unfolding range_map_pair [where F = ?FM and G = ?GM]
    by (rule range_map_pair [where F = ?FD and G = ?GD])
  also have "range_map dks (Dimensions d) ?GD (range_map mks (Metrics d) ?GM ?me0) =
               directive_elem mks dks d"
    by (simp add: range_map_record_Metrics range_map_record_Dimensions directive_elem_def)
  finally show ?thesis .
qed

lemma snd_encode_directive:
  "snd (encode_directive mks dks d jm) = directive_elem mks dks d"
  by (simp add: encode_directive_eq)

lemma fst_encode_directive:
  "fst (encode_directive mks dks d jm) =
     range_map dks (Dimensions d) (\<lambda>k v jm. AList.update k (Iface (GString v)) jm)
       (range_map mks (Metrics d) (\<lambda>k v jm. AList.update k (Iface (Value v)) jm) jm)"
  by (simp add: encode_directive_eq)

lemma map_of_encode_directive:
  assumes "iterates mks (Metrics d)" and "iterates dks (Dimensions d)"
  shows "map_of (fst (encode_directive mks dks d jm)) = map_of jm ++ flat_directive d"
  using assms
  by (auto simp: fst_encode_directive map_of_range_map_update flat_directive_def iterates_def
      map_add_def fun_eq_iff split: option.splits)

lemma distinct_encode_directive:
  "distinct (map fst jm) \<Longrightarrow> distinct (map fst (fst (encode_directive mks dks d jm)))"
  by (simp add: fst_encode_directive distinct_range_map_update)

lemma dom_encode_directive:
  "fst ` set jm \<subseteq> fst ` set (fst (encode_directive mks dks d jm))"
  by (auto simp: fst_encode_directive map_of_range_map_update dom_map_of_conv_image_fst [symmetric] dom_def)

lemma encode_directives_Return:
  "list_all (\<lambda>a. directives s a \<noteq> None) as \<Longrightarrow> \<exists>r. encode_directives s sched i as acc = Return r"
  by (induction as arbitrary: i acc) (auto simp: Let_def)

lemma encode_directives_live:
  "encode_directives s sched i as acc = Return r \<Longrightarrow> list_all (\<lambda>a. directives s a \<noteq> None) as"
  by (induction as arbitrary: i acc) (auto simp: Let_def split: option.splits)

lemma snd_encode_directives:
  "encode_directives s sched i as acc = Return r \<Longrightarrow>
   snd r = snd acc @ directive_elems sched i (List.map_filter (directives s) as)"
proof (induction as arbitrary: i acc)
  case Nil
  then show ?case by (simp add: directive_elems_def)
next
  case (Cons a as)
  then show ?case
    by (auto simp: Let_def directive_elems_def snd_encode_directive
        split: option.splits dest!: Cons.IH)
qed

lemma distinct_encode_directives:
  "encode_directives s sched i as acc = Return r \<Longrightarrow> distinct (map fst (fst acc)) \<Longrightarrow>
   distinct (map fst (fst r))"
proof (induction as arbitrary: i acc)
  case Nil
  then show ?case by simp
next
  case (Cons a as)
  then show ?case
    by (auto simp: Let_def split: option.splits dest!: Cons.IH intro: distinct_encode_directive)
qed

lemma map_of_encode_directives:
  assumes "encode_directives s sched i as acc = Return r"
    and "\<forall>j < length (List.map_filter (directives s) as).
           iterates (metrics_order sched (i + j)) (Metrics (List.map_filter (directives s) as ! j)) \<and>
           iterates (dimensions_order sched (i + j)) (Dimensions (List.map_filter (directives s) as ! j))"
  shows "map_of (fst r) =
           foldl (\<lambda>m d. m ++ flat_directive d) (map_of (fst acc)) (List.map_filter (directives s) as)"
  using assms
proof (induction as arbitrary: i acc)
  case Nil
  then show ?case by simp
next
  case (Cons a as)
  from Cons.prems(1) obtain d where d: "directives s a = Some d"
    by (auto split: option.splits)
  let ?acc' = "(fst (encode_directive (metrics_order sched i) (dimensions_order sched i) d (fst acc)),
                snd acc @ [snd (encode_directive (metrics_order sched i) (dimensions_order sched i) d (fst acc))])"
  from Cons.prems(1) d have run: "encode_directives s sched (Suc i) as ?acc' = Return r"
    by (simp add: Let_def)
  have mf: "List.map_filter (directives s) (a # as) = d # List.map_filter (directives s) as"
    by (simp add: d)
  from Cons.prems(2) have here: "iterates (metrics_order sched i) (Metrics d)"
      "iterates (dimensions_order sched i) (Dimensions d)"
    unfolding mf by force+
  from Cons.prems(2) have rest: "\<forall>j < length (List.map_filter (directives s) as).
           iterates (metrics_order sched (Suc i + j)) (Metrics (List.map_filter (directives s) as ! j)) \<and>
           iterates (dimensions_order sched (Suc i + j)) (Dimensions (List.map_filter (directives s) as ! j))"
    unfolding mf by force
  show ?case
    using Cons.IH [OF run rest] here
    by (simp add: d map_of_encode_directive)
qed


lemma live_Some:
  "live s em \<Longrightarrow> \<exists>e. embedded s em = Some e \<and> list_all (\<lambda>a. directives s a \<noteq> None) (metrics e)"
  by (auto simp: live_def split: option.splits)

lemma MarshalJSON_jsonMap_Return_iff:
  "(\<exists>jm. MarshalJSON_jsonMap envMap now sched s em = Return jm) \<longleftrightarrow> live s em"
proof
  assume "\<exists>jm. MarshalJSON_jsonMap envMap now sched s em = Return jm"
  then show "live s em"
    by (auto simp: MarshalJSON_jsonMap_def live_def Let_def
        split: option.splits result.splits dest: encode_directives_live)
next
  assume "live s em"
  then obtain e where e: "embedded s em = Some e"
      "list_all (\<lambda>a. directives s a \<noteq> None) (metrics e)"
    by (auto dest: live_Some)
  obtain r where "encode_directives s sched 0 (metrics e)
      (range_map (properties_order sched)
         (case properties e of None \<Rightarrow> Map.empty | Some p \<Rightarrow> p)
         (\<lambda>eachKey eachValue jm. AList.update eachKey (Iface eachValue) jm)
         [(''log_group_name'', Iface (GString (index_string envMap ''AWS_LAMBDA_LOG_GROUP_NAME''))),
          (''log_steam_name'', Iface (GString (index_string envMap ''AWS_LAMBDA_LOG_STREAM_NAME'')))],
       []) = Return r"
    using encode_directives_Return [OF e(2)] by blast
  then show "\<exists>jm. MarshalJSON_jsonMap envMap now sched s em = Return jm"
    by (simp add: MarshalJSON_jsonMap_def e(1) Let_def)
qed

lemma map_of_properties_loop:
  assumes "iterates ks props"
  shows "map_of (range_map ks props (\<lambda>k v jm. AList.update k (Iface v) jm)
            [(''log_group_name'', Iface (GString (index_string envMap ''AWS_LAMBDA_LOG_GROUP_NAME''))),
             (''log_steam_name'', Iface (GString (index_string envMap ''AWS_LAMBDA_LOG_STREAM_NAME'')))]) =
         reserved_fields envMap ++ (\<lambda>k. map_option Iface (props k))"
  using assms
  by (auto simp: map_of_range_map_update reserved_fields_def iterates_def map_add_def fun_eq_iff
      split: option.splits)

lemma MarshalJSON_jsonMap_spec:
  assumes run: "MarshalJSON_jsonMap envMap now sched s em = Return jm"
    and adm: "admissible sched s em"
  shows "map_of jm =
           (flat_merge envMap (props_of s em) (directives_of s em))
             (''_aws'' \<mapsto> AwsRef \<lparr>Timestamp = now sdiv 1000000,
                 CloudWatchMetrics = directive_elems sched 0 (directives_of s em)\<rparr>)"
    and "distinct (map fst jm)"
proof -
  from run obtain e where e: "embedded s em = Some e"
    by (auto simp: MarshalJSON_jsonMap_def split: option.splits)
  let ?props = "case properties e of None \<Rightarrow> Map.empty | Some p \<Rightarrow> p"
  let ?jm0 = "[(''log_group_name'', Iface (GString (index_string envMap ''AWS_LAMBDA_LOG_GROUP_NAME''))),
               (''log_steam_name'', Iface (GString (index_string envMap ''AWS_LAMBDA_LOG_STREAM_NAME'')))]"
  let ?jm1 = "range_map (properties_order sched) ?props
                (\<lambda>k v jm. AList.update k (Iface v) jm) ?jm0"
  from run e obtain r where r: "encode_directives s sched 0 (metrics e) (?jm1, []) = Return r"
      and jm: "jm = AList.update ''_aws''
                 (AwsRef \<lparr>Timestamp = now sdiv 1000000, CloudWatchMetrics = snd r\<rparr>) (fst r)"
    by (auto simp: MarshalJSON_jsonMap_def Let_def split: result.splits)
  have props: "props_of s em = ?props" and ds: "directives_of s em = List.map_filter (directives s) (metrics e)"
    by (simp_all add: props_of_def directives_of_def e)
  from adm have it: "iterates (properties_order sched) ?props"
    and its: "\<forall>j < length (List.map_filter (directives s) (metrics e)).
           iterates (metrics_order sched (0 + j)) (Metrics (List.map_filter (directives s) (metrics e) ! j)) \<and>
           iterates (dimensions_order sched (0 + j)) (Dimensions (List.map_filter (directives s) (metrics e) ! j))"
    by (simp_all add: admissible_def props ds list_all_iff)
  have m1: "map_of ?jm1 = reserved_fields envMap ++ (\<lambda>k. map_option Iface (?props k))"
    by (rule map_of_properties_loop [OF it])
  have "map_of (fst r) = flat_merge envMap (props_of s em) (directives_of s em)"
    using map_of_encode_directives [OF r its] by (simp add: m1 flat_merge_def props ds)
  moreover have "snd r = directive_elems sched 0 (directives_of s em)"
    using snd_encode_directives [OF r] by (simp add: ds)
  ultimately show "map_of jm =
           (flat_merge envMap (props_of s em) (directives_of s em))
             (''_aws'' \<mapsto> AwsRef \<lparr>Timestamp = now sdiv 1000000,
                 CloudWatchMetrics = directive_elems sched 0 (directives_of s em)\<rparr>)"
    by (simp add: jm update_conv')
  have "distinct (map fst ?jm1)"
    by (rule distinct_range_map_update) simp
  then have "distinct (map fst (fst r))"
    using distinct_encode_directives [OF r] by simp
  then show "distinct (map fst jm)"
    by (simp add: jm distinct_update)
qed


lemma marshal_members_Inr:
  "marshal_members kvs = Inr ms \<Longrightarrow>
   list_all2 (\<lambda>kv m. fst m = fst kv \<and> marshal_jvalue (snd kv) = Inr (snd m)) kvs ms"
  by (induction kvs arbitrary: ms) (auto split: sum.splits)

lemma marshal_members_Inl:
  "marshal_members kvs = Inl e \<Longrightarrow> \<exists>kv \<in> set kvs. marshal_jvalue (snd kv) = Inl e"
  by (induction kvs) (auto split: sum.splits)

lemma marshal_members_total:
  "\<forall>kv \<in> set kvs. \<exists>j. marshal_jvalue (snd kv) = Inr j \<Longrightarrow> \<exists>ms. marshal_members kvs = Inr ms"
  by (induction kvs) (auto split: sum.splits)

lemma members_keys:
  "list_all2 (\<lambda>kv m. fst m = fst kv \<and> marshal_jvalue (snd kv) = Inr (snd m)) kvs ms \<Longrightarrow>
   map fst ms = map fst kvs"
  by (induction kvs ms rule: list_all2_induct) auto

lemma members_lookup:
  "list_all2 (\<lambda>kv m. fst m = fst kv \<and> marshal_jvalue (snd kv) = Inr (snd m)) kvs ms \<Longrightarrow>
   map_option marshal_jvalue (map_of kvs k) = map_option Inr (map_of ms k)"
  by (induction kvs ms rule: list_all2_induct) auto

lemma map_insort_key: "map f (insort_key f x xs) = insort (f x) (map f xs)"
  by (induction xs) auto

lemma map_sort_key: "map f (sort_key f xs) = sort (map f xs)"
  by (induction xs) (auto simp: map_insort_key)

lemma map_of_sort_key:
  "distinct (map fst jm) \<Longrightarrow> map_of (sort_key fst jm) = map_of jm"
  by (rule map_of_inject_set [THEN iffD2]) (auto simp: distinct_map inj_on_def distinct_insort)

lemma json_Marshal_map_Inr:
  assumes "json_Marshal_map jm = Inr t" and "distinct (map fst jm)"
  shows "\<exists>ms. t = JObject ms \<and> map fst ms = sort (map fst jm) \<and>
           (\<forall>k. map_option marshal_jvalue (map_of jm k) = map_option Inr (map_of ms k))"
proof -
  from assms(1) obtain ms where ms: "marshal_members (sort_key fst jm) = Inr ms" and t: "t = JObject ms"
    by (auto simp: json_Marshal_map_def split: sum.splits)
  note rel = marshal_members_Inr [OF ms]
  have "map fst ms = sort (map fst jm)"
    using members_keys [OF rel] by (simp add: map_sort_key)
  moreover have "map_option marshal_jvalue (map_of jm k) = map_option Inr (map_of ms k)" for k
    using members_lookup [OF rel, of k] by (simp add: map_of_sort_key assms(2))
  ultimately show ?thesis using t by blast
qed

lemma json_Marshal_map_Inl:
  "json_Marshal_map jm = Inl e \<Longrightarrow> \<exists>k v. (k, v) \<in> set jm \<and> marshal_jvalue v = Inl e"
  by (fastforce simp: json_Marshal_map_def split: sum.splits dest!: marshal_members_Inl)

lemma json_Marshal_map_total:
  "\<forall>(k, v) \<in> set jm. \<exists>j. marshal_jvalue v = Inr j \<Longrightarrow> \<exists>t. json_Marshal_map jm = Inr t"
proof -
  assume "\<forall>(k, v) \<in> set jm. \<exists>j. marshal_jvalue v = Inr j"
  then have "\<forall>kv \<in> set (sort_key fst jm). \<exists>j. marshal_jvalue (snd kv) = Inr j"
    by auto
  from marshal_members_total [OF this] show ?thesis
    by (auto simp: json_Marshal_map_def)
qed

section \<open>The environment snapshot, the clock and the encoded tree\<close>

lemma split_from_not_Nil [simp]: "split_from c cur s \<noteq> []"
  by (induction s arbitrary: cur) auto

lemma split_from_one:
  "split_from c cur s = [x] \<longleftrightarrow> c \<notin> set s \<and> x = rev cur @ s"
proof (induction s arbitrary: cur)
  case Nil
  show ?case by auto
next
  case (Cons y s)
  have "split_from c [] s \<noteq> []" by simp
  then show ?case by (auto simp: Cons.IH simp del: split_from_not_Nil)
qed

lemma split_from_two:
  "split_from c cur s = [a, b] \<longleftrightarrow>
     (\<exists>k. s = k @ c # b \<and> c \<notin> set k \<and> c \<notin> set b \<and> a = rev cur @ k)"
proof (induction s arbitrary: cur)
  case Nil
  show ?case by simp
next
  case (Cons x s)
  show ?case
  proof (cases "x = c")
    case True
    then show ?thesis
      by (auto simp: split_from_one Cons_eq_append_conv)
  next
    case False
    then show ?thesis
      by (auto simp: Cons.IH Cons_eq_append_conv)
  qed
qed

lemma strings_Split_two:
  "strings_Split e c = [k, v] \<longleftrightarrow> e = k @ c # v \<and> c \<notin> set k \<and> c \<notin> set v"
  by (auto simp: strings_Split_def split_from_two)

lemma length_split_from:
  "length (split_from c cur s) = Suc (length (filter (\<lambda>x. x = c) s))"
  by (induction s arbitrary: cur) auto

lemma env_step_cases:
  "env_step e m K = (case strings_Split e CHR ''='' of
                       [k, v] \<Rightarrow> if k = K then Some v else m K | _ \<Rightarrow> m K)"
  by (auto simp: env_step_def split: list.splits)

lemma fold_env_step_Some:
  "fold env_step es m K = Some v \<Longrightarrow>
   m K = Some v \<or> (\<exists>e \<in> set es. strings_Split e CHR ''='' = [K, v])"
proof (induction es arbitrary: m)
  case Nil
  then show ?case by simp
next
  case (Cons e es)
  from Cons.IH [of "env_step e m"] Cons.prems
  show ?case
    by (auto simp: env_step_cases split: list.splits if_splits)
qed

lemma fold_env_step_skip:
  "\<forall>e \<in> set es. \<forall>v. strings_Split e CHR ''='' \<noteq> [K, v] \<Longrightarrow> fold env_step es m K = m K"
proof (induction es arbitrary: m)
  case Nil
  then show ?case by simp
next
  case (Cons e es)
  then show ?case
    by (auto simp: env_step_cases split: list.splits)
qed

lemma fold_env_step_last:
  "strings_Split e CHR ''='' = [K, v] \<Longrightarrow>
   \<forall>e' \<in> set es. \<forall>v'. strings_Split e' CHR ''='' \<noteq> [K, v'] \<Longrightarrow>
   fold env_step (pre @ e # es) m K = Some v"
  by (simp add: fold_env_step_skip env_step_cases)

lemma sdiv_mono_pos:
  fixes a b c :: int
  assumes "a \<le> b" and "0 < c"
  shows "a sdiv c \<le> b sdiv c"
proof -
  have *: "x sdiv c = (if 0 \<le> x then x div c else - ((- x) div c))" for x
    using assms(2) by (auto simp: signed_divide_int_def sgn_if)
  show ?thesis
  proof (cases "0 \<le> a")
    case True
    with assms show ?thesis by (simp add: * zdiv_mono1)
  next
    case False
    show ?thesis
    proof (cases "0 \<le> b")
      case True
      have "(- a) div c \<ge> 0" using False assms(2) by (simp add: pos_imp_zdiv_nonneg_iff)
      moreover have "b div c \<ge> 0" using True assms(2) by (simp add: pos_imp_zdiv_nonneg_iff)
      ultimately show ?thesis using False True by (simp add: *)
    next
      case F2: False
      have "(- b) div c \<le> (- a) div c" using assms by (intro zdiv_mono1) auto
      then show ?thesis using False F2 by (simp add: *)
    qed
  qed
qed

lemma MarshalJSON_jsonMap_aws:
  assumes run: "MarshalJSON_jsonMap envMap now sched s em = Return jm"
  shows "map_of jm ''_aws'' =
           Some (AwsRef \<lparr>Timestamp = now sdiv 1000000,
                   CloudWatchMetrics = directive_elems sched 0 (directives_of s em)\<rparr>)"
    and "distinct (map fst jm)"
proof -
  from run obtain e where e: "embedded s em = Some e"
    by (auto simp: MarshalJSON_jsonMap_def split: option.splits)
  let ?jm1 = "range_map (properties_order sched)
                (case properties e of None \<Rightarrow> Map.empty | Some p \<Rightarrow> p)
                (\<lambda>k v jm. AList.update k (Iface v) jm)
                [(''log_group_name'', Iface (GString (index_string envMap ''AWS_LAMBDA_LOG_GROUP_NAME''))),
                 (''log_steam_name'', Iface (GString (index_string envMap ''AWS_LAMBDA_LOG_STREAM_NAME'')))]"
  from run e obtain r where r: "encode_directives s sched 0 (metrics e) (?jm1, []) = Return r"
      and jm: "jm = AList.update ''_aws''
                 (AwsRef \<lparr>Timestamp = now sdiv 1000000, CloudWatchMetrics = snd r\<rparr>) (fst r)"
    by (auto simp: MarshalJSON_jsonMap_def Let_def split: result.splits)
  have "snd r = directive_elems sched 0 (directives_of s em)"
    using snd_encode_directives [OF r] by (simp add: directives_of_def e)
  then show "map_of jm ''_aws'' =
           Some (AwsRef \<lparr>Timestamp = now sdiv 1000000,
                   CloudWatchMetrics = directive_elems sched 0 (directives_of s em)\<rparr>)"
    by (simp add: jm update_conv')
  have "distinct (map fst ?jm1)"
    by (rule distinct_range_map_update) simp
  then have "distinct (map fst (fst r))"
    using distinct_encode_directives [OF r] by simp
  then show "distinct (map fst jm)"
    by (simp add: jm distinct_update)
qed

lemma MarshalJSON_tree_cases:
  "MarshalJSON_tree envMap now sched s em = Return x \<Longrightarrow>
   \<exists>jm. MarshalJSON_jsonMap envMap now sched s em = Return jm \<and> json_Marshal_map jm = x"
  by (auto simp: MarshalJSON_tree_def split: result.splits)

lemma MarshalJSON_tree_aws:
  assumes "MarshalJSON_tree envMap now sched s em = Return (Inr t)"
  shows "\<exists>ms. t = JObject ms \<and> sorted (map fst ms) \<and> distinct (map fst ms) \<and>
           map_of ms ''_aws'' =
             Some (json_emfAWS \<lparr>Timestamp = now sdiv 1000000,
                     CloudWatchMetrics = directive_elems sched 0 (directives_of s em)\<rparr>)"
proof -
  from MarshalJSON_tree_cases [OF assms] obtain jm
    where jm: "MarshalJSON_jsonMap envMap now sched s em = Return jm" "json_Marshal_map jm = Inr t"
    by blast
  note aws = MarshalJSON_jsonMap_aws [OF jm(1)]
  from json_Marshal_map_Inr [OF jm(2) aws(2)] obtain ms
    where ms: "t = JObject ms" "map fst ms = sort (map fst jm)"
      "\<And>k. map_option marshal_jvalue (map_of jm k) = map_option Inr (map_of ms k)"
    by blast
  from ms(3) [of "''_aws''"] have "map_of ms ''_aws'' =
             Some (json_emfAWS \<lparr>Timestamp = now sdiv 1000000,
                     CloudWatchMetrics = directive_elems sched 0 (directives_of s em)\<rparr>)"
    by (cases "map_of ms ''_aws''") (simp_all add: aws(1))
  moreover have "sorted (map fst ms)" "distinct (map fst ms)"
    using aws(2) by (simp_all add: ms(2))
  ultimately show ?thesis using ms(1) by blast
qed

lemma MarshalJSON_tree_spec:
  assumes "MarshalJSON_tree envMap now sched s em = Return (Inr t)"
    and "admissible sched s em"
  shows "\<exists>ms. t = JObject ms \<and> sorted (map fst ms) \<and> distinct (map fst ms) \<and>
           (\<forall>k. map_option marshal_jvalue
                  (((flat_merge envMap (props_of s em) (directives_of s em))
                     (''_aws'' \<mapsto> AwsRef \<lparr>Timestamp = now sdiv 1000000,
                         CloudWatchMetrics = directive_elems sched 0 (directives_of s em)\<rparr>)) k) =
                map_option Inr (map_of ms k))"
proof -
  from MarshalJSON_tree_cases [OF assms(1)] obtain jm
    where jm: "MarshalJSON_jsonMap envMap now sched s em = Return jm" "json_Marshal_map jm = Inr t"
    by blast
  note spec = MarshalJSON_jsonMap_spec [OF jm(1) assms(2)]
  from json_Marshal_map_Inr [OF jm(2) spec(2)] obtain ms
    where ms: "t = JObject ms" "map fst ms = sort (map fst jm)"
      "\<And>k. map_option marshal_jvalue (map_of jm k) = map_option Inr (map_of ms k)"
    by blast
  have "sorted (map fst ms)" "distinct (map fst ms)"
    using spec(2) by (simp_all add: ms(2))
  then show ?thesis using ms(1) ms(3) unfolding spec(1) by blast
qed

section \<open>The reserved fields and the environment\<close>

lemma foldl_flat_other:
  "\<forall>d \<in> set ds. k \<notin> dom (Metrics d) \<union> dom (Dimensions d) \<Longrightarrow>
   foldl (\<lambda>m d. m ++ flat_directive d) m0 ds k = m0 k"
  by (induction ds arbitrary: m0) (auto simp: flat_directive_def map_add_def dom_def split: option.splits)

lemma flat_merge_other:
  "k \<notin> caller_keys s em \<Longrightarrow>
   flat_merge envMap (props_of s em) (directives_of s em) k = reserved_fields envMap k"
  unfolding flat_merge_def caller_keys_def
  by (subst foldl_flat_other) (auto simp: map_add_def dom_def split: option.splits)

lemma init_Some:
  "init envVars k = Some v \<Longrightarrow> \<exists>e \<in> set envVars. strings_Split e CHR ''='' = [k, v]"
  using fold_env_step_Some [of envVars Map.empty k v] by (simp add: init_def)

lemma init_None:
  assumes "\<forall>e \<in> set envVars. \<forall>v. e = K @ CHR ''='' # v \<longrightarrow> CHR ''='' \<in> set v"
  shows "init envVars K = None"
proof (cases "init envVars K")
  case None
  then show ?thesis .
next
  case (Some v)
  from init_Some [OF Some] obtain e where "e \<in> set envVars" "strings_Split e CHR ''='' = [K, v]"
    by blast
  then have "e \<in> set envVars" "e = K @ CHR ''='' # v" "CHR ''='' \<notin> set v"
    by (simp_all add: strings_Split_two)
  with assms show ?thesis by blast
qed

lemma env_step_skip_equals:
  assumes "CHR ''='' \<in> set v"
  shows "env_step (k @ CHR ''='' # v) envMap = envMap"
proof -
  have "length (strings_Split (k @ CHR ''='' # v) CHR ''='') \<noteq> 2"
    using assms
    by (auto simp: strings_Split_def length_split_from filter_empty_conv)
  then show ?thesis
    by (auto simp: env_step_def split: list.splits)
qed

lemma reserved_member:
  assumes run: "MarshalJSON_tree envMap now sched s em = Return (Inr (JObject ms))"
    and adm: "admissible sched s em"
    and k: "k \<notin> caller_keys s em" "k \<noteq> ''_aws''"
    and r: "reserved_fields envMap k = Some (Iface (GString x))"
  shows "map_of ms k = Some (JString x)"
proof -
  from MarshalJSON_tree_spec [OF run adm] have
    "map_option marshal_jvalue
       (((flat_merge envMap (props_of s em) (directives_of s em))
          (''_aws'' \<mapsto> AwsRef \<lparr>Timestamp = now sdiv 1000000,
              CloudWatchMetrics = directive_elems sched 0 (directives_of s em)\<rparr>)) k) =
     map_option Inr (map_of ms k)"
    by auto
  then show ?thesis
    using k r by (cases "map_of ms k") (simp_all add: flat_merge_other)
qed

text \<open>
  Claim C10. The snapshot built at startup holds a variable only if its entry splits into
  exactly two parts at \<^verbatim>\<open>=\<close>: every stored pair comes from an entry \<^verbatim>\<open>k=v\<close> with no
  \<^verbatim>\<open>=\<close> in \<open>k\<close> or \<open>v\<close>, and an entry whose value contains \<^verbatim>\<open>=\<close> leaves the map as it
  was. So when the value of \<^verbatim>\<open>AWS_LAMBDA_LOG_GROUP_NAME\<close> (or of
  \<^verbatim>\<open>AWS_LAMBDA_LOG_STREAM_NAME\<close>) contains \<^verbatim>\<open>=\<close>, the variable is missing from the
  snapshot, the lookup gives the empty string, and the reserved member
  \<^verbatim>\<open>log_group_name\<close> (or \<^verbatim>\<open>log_steam_name\<close>) of the encoded object is the empty string,
  the caller having supplied no key of that name.
\<close>

theorem snapshot_omits_values_with_equals:
  assumes var: "(var, field) \<in> {(''AWS_LAMBDA_LOG_GROUP_NAME'', ''log_group_name''),
                                 (''AWS_LAMBDA_LOG_STREAM_NAME'', ''log_steam_name'')}"
    and eq: "\<forall>e \<in> set envVars. \<forall>x. e = var @ CHR ''='' # x \<longrightarrow> CHR ''='' \<in> set x"
    and run: "MarshalJSON_tree (init envVars) now sched s em = Return (Inr (JObject ms))"
    and adm: "admissible sched s em"
    and free: "field \<notin> caller_keys s em"
  shows "(\<forall>k v. init envVars k = Some v \<longrightarrow>
            (\<exists>e \<in> set envVars. strings_Split e CHR ''='' = [k, v] \<and> e = k @ CHR ''='' # v \<and>
               CHR ''='' \<notin> set k \<and> CHR ''='' \<notin> set v)) \<and>
         (\<forall>k v m. CHR ''='' \<in> set v \<longrightarrow> env_step (k @ CHR ''='' # v) m = m) \<and>
         init envVars var = None \<and>
         index_string (init envVars) var = [] \<and>
         map_of ms field = Some (JString [])"
proof (intro conjI allI impI)
  fix k v
  assume "init envVars k = Some v"
  from init_Some [OF this]
  show "\<exists>e \<in> set envVars. strings_Split e CHR ''='' = [k, v] \<and> e = k @ CHR ''='' # v \<and>
         CHR ''='' \<notin> set k \<and> CHR ''='' \<notin> set v"
    by (auto simp: strings_Split_two)
next
  fix k v :: string and m
  assume "CHR ''='' \<in> set v"
  then show "env_step (k @ CHR ''='' # v) m = m"
    by (rule env_step_skip_equals)
next
  show none: "init envVars var = None" by (rule init_None [OF eq])
  then show "index_string (init envVars) var = []" by (simp add: index_string_def)
  from none var have "reserved_fields (init envVars) field = Some (Iface (GString []))"
    by (auto simp: reserved_fields_def index_string_def)
  moreover from var have "field \<noteq> ''_aws''" by auto
  ultimately show "map_of ms field = Some (JString [])"
    using reserved_member [OF run adm free] by blast
qed

lemmas encoder_defs =
  MarshalJSON_def MarshalJSON_tree_def MarshalJSON_jsonMap_def json_Marshal_map_def
  encode_directive_def range_map_def index_string_def json_emfAWS_def
  json_CloudWatchMetricsElem_def json_MetricsElem_def signed_divide_int_def

lemmas state_defs =
  admissible_def iterates_def props_of_def directives_of_def caller_keys_def live_def

lemma ex_init:
  "init ex_environ = [''AWS_LAMBDA_LOG_STREAM_NAME'' \<mapsto> ''2020/01/31/latest'', ''HOME'' \<mapsto> ''/root'', ''EMPTY'' \<mapsto> '''']"
  by (simp add: init_def ex_environ_def env_step_def strings_Split_def)


lemma ex_admissible: "admissible ex_sched ex_store 2"
  by (simp add: state_defs ex_sched_def ex_store_def)

lemma ex_tree:
  "MarshalJSON_tree (init ex_environ) now ex_sched ex_store 2 =
     Return (Inr (ex_json (now sdiv 1000000)))"
  by (simp add: ex_init ex_json_def MarshalJSON_tree_def MarshalJSON_jsonMap_def
      json_Marshal_map_def encode_directive_def range_map_def index_string_def json_emfAWS_def
      json_CloudWatchMetricsElem_def json_MetricsElem_def ex_sched_def ex_store_def
      UnitMilliseconds_def)

theorem snapshot_omits_values_with_equals_witness:
  "filter (\<lambda>e. take 26 e = ''AWS_LAMBDA_LOG_GROUP_NAME='') ex_environ =
     [''AWS_LAMBDA_LOG_GROUP_NAME='' @ ''/aws/lambda/a=b''] \<and>
   admissible ex_sched ex_store 2 \<and>
   ''log_group_name'' \<notin> caller_keys ex_store 2 \<and>
   init ex_environ ''AWS_LAMBDA_LOG_GROUP_NAME'' = None \<and>
   init ex_environ ''AWS_LAMBDA_LOG_STREAM_NAME'' = Some ''2020/01/31/latest'' \<and>
   MarshalJSON_tree (init ex_environ) 1580428800123456789 ex_sched ex_store 2 =
     Return (Inr (ex_json 1580428800123)) \<and>
   member ''log_group_name'' (ex_json 1580428800123) = Some (JString [])"
proof -
  have h1: "(''AWS_LAMBDA_LOG_GROUP_NAME'', ''log_group_name'') \<in>
              {(''AWS_LAMBDA_LOG_GROUP_NAME'', ''log_group_name''),
               (''AWS_LAMBDA_LOG_STREAM_NAME'', ''log_steam_name'')}"
    by simp
  have h2: "\<forall>e \<in> set ex_environ. \<forall>x. e = ''AWS_LAMBDA_LOG_GROUP_NAME'' @ CHR ''='' # x \<longrightarrow> CHR ''='' \<in> set x"
    by (simp add: ex_environ_def)
  have h3: "MarshalJSON_tree (init ex_environ) 1580428800123456789 ex_sched ex_store 2 =
              Return (Inr (JObject
       [(''Latency'', JNumber 42),
        (''Stage'', JString ''prod''),
        (''_aws'', JObject
           [(''Timestamp'', JNumber 1580428800123),
            (''CloudWatchMetrics'', JArray
               [JObject [(''Namespace'', JString ''MyService''),
                         (''Dimensions'', JArray [JArray [JString ''Stage'']]),
                         (''Metrics'', JArray [JObject [(''Name'', JString ''Latency''),
                                                       (''Unit'', JString ''Milliseconds'')]])]])]),
        (''log_group_name'', JString []),
        (''log_steam_name'', JString ''2020/01/31/latest''),
        (''requestId'', JString ''abc-123'')]))"
    by (simp add: ex_tree ex_json_def signed_divide_int_def)
  have h5: "''log_group_name'' \<notin> caller_keys ex_store 2"
    by (simp add: state_defs ex_store_def)
  from snapshot_omits_values_with_equals [OF h1 h2 h3 ex_admissible h5]
  have "init ex_environ ''AWS_LAMBDA_LOG_GROUP_NAME'' = None" by blast
  moreover have "filter (\<lambda>e. take 26 e = ''AWS_LAMBDA_LOG_GROUP_NAME='') ex_environ =
     [''AWS_LAMBDA_LOG_GROUP_NAME='' @ ''/aws/lambda/a=b'']"
    by (simp add: ex_environ_def)
  ultimately show ?thesis
    using h5 ex_admissible h3 by (simp add: ex_init ex_json_def)
qed

section \<open>The timestamp\<close>

lemma MarshalJSON_tree_timestamp:
  assumes "MarshalJSON_tree envMap now sched s em = Return (Inr j)"
  shows "\<exists>a. member ''_aws'' j = Some a \<and>
           member ''Timestamp'' a = Some (JNumber (now sdiv 1000000))"
  using MarshalJSON_tree_aws [OF assms] by (auto simp: json_emfAWS_def)

lemma sdiv_same_millisecond:
  fixes t1 t2 :: int
  assumes "0 \<le> t1" "t1 \<le> t2" "t2 < (t1 div 1000000 + 1) * 1000000"
  shows "t1 sdiv 1000000 = t2 sdiv 1000000"
proof -
  have "t1 div 1000000 \<le> t2 div 1000000"
    using assms(2) by (simp add: zdiv_mono1)
  moreover have "t2 div 1000000 < t1 div 1000000 + 1"
    using assms(3) by (simp add: div_less_iff_less_mult)
  ultimately have "t1 div 1000000 = t2 div 1000000" by simp
  then show ?thesis using assms(1,2) by (simp add: signed_divide_int_def sgn_if)
qed

text \<open>
  Claim C9, amended. The member \<^verbatim>\<open>_aws.Timestamp\<close> is computed from the clock reading of the
  encode call alone: it is that reading, in nanoseconds since the epoch, divided by one
  million and truncated. Two successive encodes of an instance, at readings
  \<open>t1 \<le> t2\<close>, give timestamps that do not decrease; they are equal when both readings
  fall into the same millisecond.
\<close>

theorem timestamp_nondecreasing:
  assumes "MarshalJSON_tree envMap t1 sched1 s1 em = Return (Inr j1)"
    and "MarshalJSON_tree envMap t2 sched2 s2 em = Return (Inr j2)"
    and "t1 \<le> t2"
  shows "\<exists>a1 a2. member ''_aws'' j1 = Some a1 \<and> member ''_aws'' j2 = Some a2 \<and>
           member ''Timestamp'' a1 = Some (JNumber (t1 sdiv 1000000)) \<and>
           member ''Timestamp'' a2 = Some (JNumber (t2 sdiv 1000000)) \<and>
           t1 sdiv 1000000 \<le> t2 sdiv 1000000 \<and>
           (0 \<le> t1 \<and> t2 < (t1 div 1000000 + 1) * 1000000 \<longrightarrow>
              t1 sdiv 1000000 = t2 sdiv 1000000)"
proof -
  from MarshalJSON_tree_timestamp [OF assms(1)] obtain a1 where
    a1: "member ''_aws'' j1 = Some a1" "member ''Timestamp'' a1 = Some (JNumber (t1 sdiv 1000000))"
    by blast
  from MarshalJSON_tree_timestamp [OF assms(2)] obtain a2 where
    a2: "member ''_aws'' j2 = Some a2" "member ''Timestamp'' a2 = Some (JNumber (t2 sdiv 1000000))"
    by blast
  have "t1 sdiv 1000000 \<le> t2 sdiv 1000000"
    using assms(3) by (rule sdiv_mono_pos) simp
  moreover have "0 \<le> t1 \<and> t2 < (t1 div 1000000 + 1) * 1000000 \<longrightarrow>
              t1 sdiv 1000000 = t2 sdiv 1000000"
    using sdiv_same_millisecond [OF _ assms(3)] by blast
  ultimately show ?thesis using a1 a2 by blast
qed

theorem timestamp_nondecreasing_witness:
  "(1580428800123000000 :: int) \<le> 1580428800124000001 \<and>
   MarshalJSON_tree (init ex_environ) 1580428800123000000 ex_sched ex_store 2 =
     Return (Inr (ex_json 1580428800123)) \<and>
   MarshalJSON_tree (init ex_environ) 1580428800124000001 ex_sched ex_store 2 =
     Return (Inr (ex_json 1580428800124)) \<and>
   (1580428800123000000 :: int) sdiv 1000000 \<le> 1580428800124000001 sdiv 1000000"
proof -
  have le: "(1580428800123000000 :: int) \<le> 1580428800124000001" by simp
  from timestamp_nondecreasing [OF ex_tree ex_tree le]
  have "(1580428800123000000 :: int) sdiv 1000000 \<le> 1580428800124000001 sdiv 1000000"
    by blast
  then show ?thesis by (simp add: ex_tree signed_divide_int_def)
qed

text \<open>
  Two successive encodes of the example instance, the second 999999 nanoseconds after the
  first: both carry the timestamp 1580428800123.
\<close>

theorem timestamp_same_millisecond_counterexample:
  "(1580428800123000000 :: int) < 1580428800123999999 \<and>
   MarshalJSON_tree (init ex_environ) 1580428800123000000 ex_sched ex_store 2 =
     Return (Inr (ex_json 1580428800123)) \<and>
   MarshalJSON_tree (init ex_environ) 1580428800123999999 ex_sched ex_store 2 =
     Return (Inr (ex_json 1580428800123)) \<and>
   Option.bind (member ''_aws'' (ex_json 1580428800123)) (member ''Timestamp'') =
     Some (JNumber 1580428800123)"
  by (simp add: ex_tree signed_divide_int_def ex_json_def)

section \<open>The flat merge and the reserved keys\<close>

lemma MarshalJSON_tree_Return:
  "live s em \<Longrightarrow> \<exists>x. MarshalJSON_tree envMap now sched s em = Return x"
  using MarshalJSON_jsonMap_Return_iff [of envMap now sched s em]
  by (auto simp: MarshalJSON_tree_def)

lemma MarshalJSON_tree_Inl:
  assumes run: "MarshalJSON_tree envMap now sched s em = Return (Inl e)"
    and adm: "admissible sched s em"
  shows "\<exists>k v. k \<noteq> ''_aws'' \<and> flat_merge envMap (props_of s em) (directives_of s em) k = Some v \<and>
           marshal_jvalue v = Inl e"
proof -
  from MarshalJSON_tree_cases [OF run] obtain jm
    where jm: "MarshalJSON_jsonMap envMap now sched s em = Return jm" "json_Marshal_map jm = Inl e"
    by blast
  note spec = MarshalJSON_jsonMap_spec [OF jm(1) adm]
  from json_Marshal_map_Inl [OF jm(2)] obtain k v where kv: "(k, v) \<in> set jm" "marshal_jvalue v = Inl e"
    by blast
  from kv(1) spec(2) have look: "map_of jm k = Some v" by simp
  have "k \<noteq> ''_aws''"
  proof
    assume "k = ''_aws''"
    with look spec(1) kv(2) show False by auto
  qed
  with look spec(1) kv(2) show ?thesis by auto
qed

lemma MarshalJSON_tree_total:
  assumes live: "live s em" and adm: "admissible sched s em"
    and ok: "\<forall>k v. k \<noteq> ''_aws'' \<and> flat_merge envMap (props_of s em) (directives_of s em) k = Some v
               \<longrightarrow> (\<exists>j. marshal_jvalue v = Inr j)"
  shows "\<exists>j. MarshalJSON_tree envMap now sched s em = Return (Inr j)"
proof -
  from MarshalJSON_tree_Return [OF live] obtain x
    where x: "MarshalJSON_tree envMap now sched s em = Return x" by blast
  show ?thesis
  proof (cases x)
    case (Inl e)
    from MarshalJSON_tree_Inl [OF x [unfolded Inl] adm] ok show ?thesis by fastforce
  next
    case (Inr j)
    with x show ?thesis by blast
  qed
qed

lemma MarshalJSON_tree_members:
  assumes run: "MarshalJSON_tree envMap now sched s em = Return (Inr j)"
    and adm: "admissible sched s em"
    and k: "k \<noteq> ''_aws''"
  shows "map_option marshal_jvalue (flat_merge envMap (props_of s em) (directives_of s em) k) =
           map_option Inr (member k j)"
proof -
  from MarshalJSON_tree_spec [OF run adm] obtain ms where j: "j = JObject ms"
    and all: "\<And>k. map_option marshal_jvalue
                  (((flat_merge envMap (props_of s em) (directives_of s em))
                     (''_aws'' \<mapsto> AwsRef \<lparr>Timestamp = now sdiv 1000000,
                         CloudWatchMetrics = directive_elems sched 0 (directives_of s em)\<rparr>)) k) =
                map_option Inr (map_of ms k)"
    by blast
  from all [of k] k show ?thesis by (simp add: j)
qed


lemma clash_live: "live clash_store 3"
  by (simp add: live_def clash_store_def)

lemma clash_admissible: "admissible clash_sched clash_store 3"
  by (simp add: state_defs clash_sched_def clash_store_def List.map_filter_def upt_rec)

lemma clash_tree:
  "MarshalJSON_tree clash_env 7999999 clash_sched clash_store 3 = Return (Inr clash_json)"
  by (simp add: clash_json_def clash_env_def MarshalJSON_tree_def MarshalJSON_jsonMap_def
      json_Marshal_map_def encode_directive_def range_map_def index_string_def json_emfAWS_def
      json_CloudWatchMetricsElem_def json_MetricsElem_def clash_sched_def clash_store_def
      UnitCount_def signed_divide_int_def)




lemma flat_merge_reserved:
  assumes "k \<in> {''log_group_name'', ''log_steam_name''}"
  shows "flat_merge envMap props ds k \<noteq> None"
proof -
  have keep: "m0 k \<noteq> None \<Longrightarrow> foldl (\<lambda>m d. m ++ flat_directive d) m0 ds k \<noteq> None" for m0
    by (induction ds arbitrary: m0) (auto simp: map_add_def split: option.splits)
  have "(reserved_fields envMap ++ (\<lambda>k. map_option Iface (props k))) k \<noteq> None"
    using assms by (auto simp: reserved_fields_def map_add_def split: option.splits)
  then show ?thesis
    unfolding flat_merge_def
    by (rule keep [of "reserved_fields envMap ++ (\<lambda>k. map_option Iface (props k))"])
qed

lemma reserved_present:
  assumes run: "MarshalJSON_tree envMap now sched s em = Return (Inr j)"
    and adm: "admissible sched s em"
    and k: "k \<in> {''log_group_name'', ''log_steam_name''}"
  shows "member k j \<noteq> None"
proof -
  from k have "k \<noteq> ''_aws''" by auto
  from MarshalJSON_tree_members [OF run adm this] flat_merge_reserved [OF k, of envMap "props_of s em" "directives_of s em"]
  show ?thesis by (cases "member k j") auto
qed

lemma reserved_value:
  assumes run: "MarshalJSON_tree envMap now sched s em = Return (Inr j)"
    and adm: "admissible sched s em"
    and k: "k \<notin> caller_keys s em" "k \<noteq> ''_aws''"
    and r: "reserved_fields envMap k = Some (Iface (GString x))"
  shows "member k j = Some (JString x)"
  using MarshalJSON_tree_members [OF run adm k(2)] k(1) r
  by (cases "member k j") (simp_all add: flat_merge_other)

lemma MarshalJSON_tree_aws_member:
  assumes "MarshalJSON_tree envMap now sched s em = Return (Inr j)"
  shows "member ''_aws'' j =
           Some (JObject [(''Timestamp'', JNumber (now sdiv 1000000)),
                          (''CloudWatchMetrics'',
                           JArray (map json_CloudWatchMetricsElem
                                     (directive_elems sched 0 (directives_of s em))))])"
  using MarshalJSON_tree_aws [OF assms] by (auto simp: json_emfAWS_def)

text \<open>
  Claim C3, amended. Whenever the encoding succeeds, for an instance with no directive
  too, the object has the members \<^verbatim>\<open>log_group_name\<close> and \<^verbatim>\<open>log_steam_name\<close>, spelled so,
  and the member \<^verbatim>\<open>_aws\<close>, an object with \<^verbatim>\<open>Timestamp\<close> and \<^verbatim>\<open>CloudWatchMetrics\<close>; with no
  directive \<^verbatim>\<open>CloudWatchMetrics\<close> is the empty array. The value of a reserved member is
  the entry of the environment snapshot, the empty string for an unset variable, when
  no property, metric or dimension has the name of the reserved key.
\<close>

theorem reserved_keys_present:
  assumes run: "MarshalJSON_tree envMap now sched s em = Return (Inr j)"
    and adm: "admissible sched s em"
  shows "member ''log_group_name'' j \<noteq> None \<and>
         member ''log_steam_name'' j \<noteq> None \<and>
         member ''_aws'' j =
           Some (JObject [(''Timestamp'', JNumber (now sdiv 1000000)),
                          (''CloudWatchMetrics'',
                           JArray (map json_CloudWatchMetricsElem
                                     (directive_elems sched 0 (directives_of s em))))]) \<and>
         (directives_of s em = [] \<longrightarrow>
            member ''_aws'' j =
              Some (JObject [(''Timestamp'', JNumber (now sdiv 1000000)),
                             (''CloudWatchMetrics'', JArray [])])) \<and>
         (''log_group_name'' \<notin> caller_keys s em \<longrightarrow>
            member ''log_group_name'' j =
              Some (JString (index_string envMap ''AWS_LAMBDA_LOG_GROUP_NAME''))) \<and>
         (''log_steam_name'' \<notin> caller_keys s em \<longrightarrow>
            member ''log_steam_name'' j =
              Some (JString (index_string envMap ''AWS_LAMBDA_LOG_STREAM_NAME''))) \<and>
         (\<forall>var. envMap var = None \<longrightarrow> index_string envMap var = [])"
proof (intro conjI impI allI)
  show "member ''log_group_name'' j \<noteq> None" "member ''log_steam_name'' j \<noteq> None"
    by (rule reserved_present [OF run adm], simp)+
  show aws: "member ''_aws'' j =
           Some (JObject [(''Timestamp'', JNumber (now sdiv 1000000)),
                          (''CloudWatchMetrics'',
                           JArray (map json_CloudWatchMetricsElem
                                     (directive_elems sched 0 (directives_of s em))))])"
    by (rule MarshalJSON_tree_aws_member [OF run])
  show "member ''_aws'' j =
              Some (JObject [(''Timestamp'', JNumber (now sdiv 1000000)),
                             (''CloudWatchMetrics'', JArray [])])"
    if "directives_of s em = []"
    using aws that by (simp add: directive_elems_def)
  show "member ''log_group_name'' j =
              Some (JString (index_string envMap ''AWS_LAMBDA_LOG_GROUP_NAME''))"
    if "''log_group_name'' \<notin> caller_keys s em"
    by (rule reserved_value [OF run adm that]) (simp_all add: reserved_fields_def)
  show "member ''log_steam_name'' j =
              Some (JString (index_string envMap ''AWS_LAMBDA_LOG_STREAM_NAME''))"
    if "''log_steam_name'' \<notin> caller_keys s em"
    by (rule reserved_value [OF run adm that]) (simp_all add: reserved_fields_def)
  show "index_string envMap var = []" if "envMap var = None" for var
    using that by (simp add: index_string_def)
qed

lemma new_admissible: "admissible new_sched new_store 4"
  by (simp add: state_defs new_sched_def new_store_def NewEmbeddedMetric_def empty_store_def)

lemma new_tree:
  "MarshalJSON_tree Map.empty 5000000 new_sched new_store 4 =
     Return (Inr (JObject
       [(''_aws'', JObject [(''Timestamp'', JNumber 5), (''CloudWatchMetrics'', JArray [])]),
        (''log_group_name'', JString []),
        (''log_steam_name'', JString [])]))"
  by (simp add: MarshalJSON_tree_def MarshalJSON_jsonMap_def json_Marshal_map_def
      range_map_def index_string_def json_emfAWS_def new_sched_def new_store_def
      NewEmbeddedMetric_def empty_store_def signed_divide_int_def)

theorem reserved_keys_present_witness:
  "admissible new_sched new_store 4 \<and>
   directives_of new_store 4 = [] \<and>
   caller_keys new_store 4 = {} \<and>
   MarshalJSON_tree Map.empty 5000000 new_sched new_store 4 =
     Return (Inr (JObject
       [(''_aws'', JObject [(''Timestamp'', JNumber 5), (''CloudWatchMetrics'', JArray [])]),
        (''log_group_name'', JString []),
        (''log_steam_name'', JString [])])) \<and>
   member ''log_group_name'' (JObject
       [(''_aws'', JObject [(''Timestamp'', JNumber 5), (''CloudWatchMetrics'', JArray [])]),
        (''log_group_name'', JString []),
        (''log_steam_name'', JString [])]) = Some (JString [])"
proof -
  have k: "caller_keys new_store 4 = {}" "directives_of new_store 4 = []"
    by (simp_all add: state_defs new_store_def NewEmbeddedMetric_def empty_store_def)
  from reserved_keys_present [OF new_tree new_admissible] k
  have "member ''log_group_name'' (JObject
       [(''_aws'', JObject [(''Timestamp'', JNumber 5), (''CloudWatchMetrics'', JArray [])]),
        (''log_group_name'', JString []),
        (''log_steam_name'', JString [])]) = Some (JString (index_string Map.empty ''AWS_LAMBDA_LOG_GROUP_NAME''))"
    by blast
  then show ?thesis
    using k new_tree new_admissible by (simp add: index_string_def)
qed

text \<open>
  The environment names the log group \<^verbatim>\<open>/aws/lambda/f\<close>; the instance has a property
  \<^verbatim>\<open>log_group_name\<close> with the value \<^verbatim>\<open>mine\<close>, and that is the value in the encoded object.
\<close>

theorem reserved_key_overridden_counterexample:
  "live clash_store 3 \<and> admissible clash_sched clash_store 3 \<and>
   index_string clash_env ''AWS_LAMBDA_LOG_GROUP_NAME'' = ''/aws/lambda/f'' \<and>
   MarshalJSON_tree clash_env 7999999 clash_sched clash_store 3 = Return (Inr clash_json) \<and>
   member ''log_group_name'' clash_json = Some (JString ''mine'')"
  by (simp add: clash_live clash_admissible clash_tree)
     (simp add: clash_json_def clash_env_def index_string_def)

section \<open>One element for each directive\<close>

lemma length_directive_elems [simp]: "length (directive_elems sched i ds) = length ds"
  by (simp add: directive_elems_def)

lemma nth_directive_elems:
  "n < length ds \<Longrightarrow>
   directive_elems sched i ds ! n =
     directive_elem (metrics_order sched (i + n)) (dimensions_order sched (i + n)) (ds ! n)"
  by (simp add: directive_elems_def nth_enumerate_eq)

lemma directive_elem_iterates:
  assumes "iterates mks (Metrics d)" and "iterates dks (Dimensions d)"
  shows "directive_elem mks dks d =
           \<lparr>cw_Dimensions = map (\<lambda>k. [k]) dks,
            cw_Namespace = namespace d,
            cw_Metrics = map (\<lambda>k. \<lparr>elem_Name = k, elem_Unit = metric_unit d k\<rparr>) mks\<rparr>"
proof -
  have "List.map_filter (\<lambda>k. map_option (\<lambda>v. [k]) (Dimensions d k)) dks = map (\<lambda>k. [k]) dks"
    using assms(2) unfolding iterates_def List.map_filter_def
    by (auto intro!: map_cong simp: dom_def filter_id_conv)
  moreover have "List.map_filter
          (\<lambda>k. map_option (\<lambda>v. \<lparr>elem_Name = k, elem_Unit = Unit v\<rparr>) (Metrics d k)) mks =
        map (\<lambda>k. \<lparr>elem_Name = k, elem_Unit = metric_unit d k\<rparr>) mks"
    using assms(1) unfolding iterates_def List.map_filter_def metric_unit_def
    by (auto intro!: map_cong simp: dom_def filter_id_conv)
  ultimately show ?thesis by (simp add: directive_elem_def)
qed

lemma iterates_card: "iterates ks m \<Longrightarrow> length ks = card (dom m)"
  by (auto simp: iterates_def dest: distinct_card)

lemma admissible_nth:
  assumes "admissible sched s em" and "i < length (directives_of s em)"
  shows "iterates (metrics_order sched i) (Metrics (directives_of s em ! i))"
    and "iterates (dimensions_order sched i) (Dimensions (directives_of s em ! i))"
  using assms by (simp_all add: admissible_def list_all_iff)

lemma json_CloudWatchMetricsElem_iterates:
  assumes "iterates mks (Metrics d)" and "iterates dks (Dimensions d)"
  shows "json_CloudWatchMetricsElem (directive_elem mks dks d) =
           JObject [(''Namespace'', JString (namespace d)),
                    (''Dimensions'', JArray (map (\<lambda>k. JArray [JString k]) dks)),
                    (''Metrics'',
                     JArray (map (\<lambda>k. JObject [(''Name'', JString k),
                                                 (''Unit'', JString (metric_unit d k))]) mks))]"
  by (simp add: directive_elem_iterates [OF assms] json_CloudWatchMetricsElem_def
      json_MetricsElem_def comp_def)

lemma live_directives_of:
  assumes "live s em"
  shows "\<exists>e. embedded s em = Some e \<and> directives_of s em = map (\<lambda>a. the (directives s a)) (metrics e) \<and>
           set (metrics e) \<subseteq> dom (directives s)"
proof -
  from live_Some [OF assms] obtain e where e: "embedded s em = Some e"
      "list_all (\<lambda>a. directives s a \<noteq> None) (metrics e)"
    by blast
  have "List.map_filter (directives s) as = map (\<lambda>a. the (directives s a)) as"
    if "list_all (\<lambda>a. directives s a \<noteq> None) as" for as
    using that by (induction as) auto
  with e show ?thesis
    by (auto simp: directives_of_def list_all_iff)
qed

lemma NewMetricDirective_appends:
  assumes live: "live s em" and fresh: "md \<notin> dom (directives s)"
  shows "\<exists>s'. NewMetricDirective md s em ns dims = Return (md, s') \<and> live s' em \<and>
           props_of s' em = props_of s em \<and>
           directives_of s' em =
             directives_of s em @
               [\<lparr>Dimensions = (case dims of None \<Rightarrow> Map.empty | Some ds \<Rightarrow> ds),
                 Metrics = Map.empty, namespace = ns\<rparr>]"
proof -
  from live_directives_of [OF live] obtain e where e: "embedded s em = Some e"
      "directives_of s em = map (\<lambda>a. the (directives s a)) (metrics e)"
      "set (metrics e) \<subseteq> dom (directives s)"
    by blast
  let ?d = "\<lparr>Dimensions = (case dims of None \<Rightarrow> Map.empty | Some ds \<Rightarrow> ds),
             Metrics = Map.empty, namespace = ns\<rparr>"
  let ?s' = "s\<lparr>directives := (directives s)(md \<mapsto> ?d),
               embedded := (embedded s)(em \<mapsto> e\<lparr>metrics := metrics e @ [md]\<rparr>)\<rparr>"
  have run: "NewMetricDirective md s em ns dims = Return (md, ?s')"
    by (simp add: NewMetricDirective_def e(1) Let_def)
  from e(3) fresh have notin: "md \<notin> set (metrics e)" by auto
  have old: "List.map_filter ((directives s)(md \<mapsto> ?d)) as = List.map_filter (directives s) as"
    if "md \<notin> set as" for as
    using that by (induction as) (auto split: option.splits)
  have "List.map_filter ((directives s)(md \<mapsto> ?d)) (metrics e @ [md]) =
          List.map_filter (directives s) (metrics e) @ [?d]"
    using old [OF notin] by (simp add: List.map_filter_def)
  then have "directives_of ?s' em = directives_of s em @ [?d]"
    by (simp add: directives_of_def e(1))
  moreover have "live ?s' em"
    using e(3) by (auto simp: live_def list_all_iff)
  moreover have "props_of ?s' em = props_of s em"
    by (simp add: props_of_def e(1))
  ultimately show ?thesis using run by blast
qed

text \<open>
  Claim C1. The array \<^verbatim>\<open>_aws.CloudWatchMetrics\<close> has one element for each directive of the
  instance, in the order of the directive list, and \<^verbatim>\<open>NewMetricDirective\<close> appends to that
  list, so the order is the order of creation. The element of a directive has its
  namespace, under \<^verbatim>\<open>Metrics\<close> one object of name and unit for each metric name and under
  \<^verbatim>\<open>Dimensions\<close> one array of one name for each dimension name: the names appear in the
  order in which the loop visited them, each name of the directive once and no other, so
  the arrays have as many entries as the directive has metrics and dimensions.
\<close>

theorem one_element_per_directive:
  assumes run: "MarshalJSON_tree envMap now sched s em = Return (Inr j)"
    and adm: "admissible sched s em"
  shows "(\<exists>cw. member ''_aws'' j =
                 Some (JObject [(''Timestamp'', JNumber (now sdiv 1000000)),
                                (''CloudWatchMetrics'', JArray cw)]) \<and>
               length cw = length (directives_of s em) \<and>
               (\<forall>i < length cw.
                  cw ! i =
                    JObject [(''Namespace'', JString (namespace (directives_of s em ! i))),
                             (''Dimensions'',
                              JArray (map (\<lambda>k. JArray [JString k]) (dimensions_order sched i))),
                             (''Metrics'',
                              JArray (map (\<lambda>k. JObject
                                             [(''Name'', JString k),
                                              (''Unit'', JString (metric_unit (directives_of s em ! i) k))])
                                        (metrics_order sched i)))] \<and>
                  distinct (dimensions_order sched i) \<and>
                  set (dimensions_order sched i) = dom (Dimensions (directives_of s em ! i)) \<and>
                  length (dimensions_order sched i) = card (dom (Dimensions (directives_of s em ! i))) \<and>
                  distinct (metrics_order sched i) \<and>
                  set (metrics_order sched i) = dom (Metrics (directives_of s em ! i)) \<and>
                  length (metrics_order sched i) = card (dom (Metrics (directives_of s em ! i))))) \<and>
         (\<forall>md ns dims. md \<notin> dom (directives s) \<longrightarrow>
            (\<exists>s'. NewMetricDirective md s em ns dims = Return (md, s') \<and> live s' em \<and>
                   directives_of s' em =
                     directives_of s em @
                       [\<lparr>Dimensions = (case dims of None \<Rightarrow> Map.empty | Some ds \<Rightarrow> ds),
                         Metrics = Map.empty, namespace = ns\<rparr>]))"
proof (intro conjI allI impI)
  let ?ds = "directives_of s em"
  let ?cw = "map json_CloudWatchMetricsElem (directive_elems sched 0 ?ds)"
  have aws: "member ''_aws'' j =
               Some (JObject [(''Timestamp'', JNumber (now sdiv 1000000)),
                              (''CloudWatchMetrics'', JArray ?cw)])"
    by (rule MarshalJSON_tree_aws_member [OF run])
  have each: "?cw ! i =
                    JObject [(''Namespace'', JString (namespace (?ds ! i))),
                             (''Dimensions'',
                              JArray (map (\<lambda>k. JArray [JString k]) (dimensions_order sched i))),
                             (''Metrics'',
                              JArray (map (\<lambda>k. JObject
                                             [(''Name'', JString k),
                                              (''Unit'', JString (metric_unit (?ds ! i) k))])
                                        (metrics_order sched i)))] \<and>
                  distinct (dimensions_order sched i) \<and>
                  set (dimensions_order sched i) = dom (Dimensions (?ds ! i)) \<and>
                  length (dimensions_order sched i) = card (dom (Dimensions (?ds ! i))) \<and>
                  distinct (metrics_order sched i) \<and>
                  set (metrics_order sched i) = dom (Metrics (?ds ! i)) \<and>
                  length (metrics_order sched i) = card (dom (Metrics (?ds ! i)))"
    if i: "i < length ?cw" for i
  proof -
    from i have i': "i < length ?ds" by simp
    note it = admissible_nth [OF adm i']
    have "?cw ! i = json_CloudWatchMetricsElem
                      (directive_elem (metrics_order sched i) (dimensions_order sched i) (?ds ! i))"
      using i' by (simp add: nth_directive_elems)
    then show ?thesis
      using it iterates_card [OF it(1)] iterates_card [OF it(2)]
      by (simp add: json_CloudWatchMetricsElem_iterates [OF it]) (simp add: iterates_def)
  qed
  from aws each show "\<exists>cw. member ''_aws'' j =
                 Some (JObject [(''Timestamp'', JNumber (now sdiv 1000000)),
                                (''CloudWatchMetrics'', JArray cw)]) \<and>
               length cw = length (directives_of s em) \<and>
               (\<forall>i < length cw.
                  cw ! i =
                    JObject [(''Namespace'', JString (namespace (directives_of s em ! i))),
                             (''Dimensions'',
                              JArray (map (\<lambda>k. JArray [JString k]) (dimensions_order sched i))),
                             (''Metrics'',
                              JArray (map (\<lambda>k. JObject
                                             [(''Name'', JString k),
                                              (''Unit'', JString (metric_unit (directives_of s em ! i) k))])
                                        (metrics_order sched i)))] \<and>
                  distinct (dimensions_order sched i) \<and>
                  set (dimensions_order sched i) = dom (Dimensions (directives_of s em ! i)) \<and>
                  length (dimensions_order sched i) = card (dom (Dimensions (directives_of s em ! i))) \<and>
                  distinct (metrics_order sched i) \<and>
                  set (metrics_order sched i) = dom (Metrics (directives_of s em ! i)) \<and>
                  length (metrics_order sched i) = card (dom (Metrics (directives_of s em ! i))))"
    by (intro exI [of _ ?cw]) simp
next
  fix md ns dims
  assume fresh: "md \<notin> dom (directives s)"
  from run have "live s em"
    using MarshalJSON_jsonMap_Return_iff [of envMap now sched s em]
    by (auto dest: MarshalJSON_tree_cases)
  from NewMetricDirective_appends [OF this fresh]
  show "\<exists>s'. NewMetricDirective md s em ns dims = Return (md, s') \<and> live s' em \<and>
                   directives_of s' em =
                     directives_of s em @
                       [\<lparr>Dimensions = (case dims of None \<Rightarrow> Map.empty | Some ds \<Rightarrow> ds),
                         Metrics = Map.empty, namespace = ns\<rparr>]"
    by blast
qed


theorem one_element_per_directive_witness:
  "admissible clash_sched clash_store 3 \<and>
   MarshalJSON_tree clash_env 7999999 clash_sched clash_store 3 = Return (Inr clash_json) \<and>
   map namespace (directives_of clash_store 3) = [''A'', ''B''] \<and>
   map (member ''Namespace'')
     (elements (the (member ''CloudWatchMetrics'' (the (member ''_aws'' clash_json))))) =
     [Some (JString ''A''), Some (JString ''B'')] \<and>
   13 \<notin> dom (directives clash_store) \<and>
   (case NewMetricDirective 13 clash_store 3 ''C'' None of
      Panic \<Rightarrow> False
    | Return r \<Rightarrow> fst r = 13 \<and> map namespace (directives_of (snd r) 3) = [''A'', ''B'', ''C''])"
proof -
  have fresh: "13 \<notin> dom (directives clash_store)"
    by (simp add: clash_store_def)
  have ds: "map namespace (directives_of clash_store 3) = [''A'', ''B'']"
    by (simp add: directives_of_def clash_store_def List.map_filter_def)
  note new = one_element_per_directive [OF clash_tree clash_admissible, THEN conjunct2,
      rule_format, OF fresh, of "''C''" None]
  then obtain s' where "NewMetricDirective 13 clash_store 3 ''C'' None = Return (13, s')"
      "directives_of s' 3 = directives_of clash_store 3 @
         [\<lparr>Dimensions = Map.empty, Metrics = Map.empty, namespace = ''C''\<rparr>]"
    by auto
  then have "case NewMetricDirective 13 clash_store 3 ''C'' None of
      Panic \<Rightarrow> False
    | Return r \<Rightarrow> fst r = 13 \<and> map namespace (directives_of (snd r) 3) = [''A'', ''B'', ''C'']"
    by (simp add: ds)
  moreover have "map (member ''Namespace'')
     (elements (the (member ''CloudWatchMetrics'' (the (member ''_aws'' clash_json))))) =
     [Some (JString ''A''), Some (JString ''B'')]"
    by (simp add: clash_json_def)
  ultimately show ?thesis
    using fresh ds clash_tree clash_admissible by simp
qed

section \<open>Determinism up to the order of map iteration\<close>

lemma sort_key_fst_unique:
  assumes "distinct (map fst xs)" and "distinct (map fst ys)" and "map_of xs = map_of ys"
  shows "sort_key fst xs = sort_key fst ys"
proof (rule map_sorted_distinct_set_unique [where f = fst])
  from assms have eq: "set xs = set ys"
    by (simp add: map_of_inject_set)
  from assms(1) have "inj_on fst (set xs)"
    by (simp add: distinct_map)
  with eq show "inj_on fst (set (sort_key fst xs) \<union> set (sort_key fst ys))"
    by simp
  show "sorted (map fst (sort_key fst xs))" "sorted (map fst (sort_key fst ys))"
    by simp_all
  show "distinct (map fst (sort_key fst xs))" "distinct (map fst (sort_key fst ys))"
    using assms(1,2) by (simp_all add: map_sort_key)
  show "set (sort_key fst xs) = set (sort_key fst ys)"
    using eq by simp
qed

lemma directive_elems_cong:
  assumes "\<forall>i < length ds. metrics_order sched1 i = metrics_order sched2 i \<and>
                            dimensions_order sched1 i = dimensions_order sched2 i"
  shows "directive_elems sched1 0 ds = directive_elems sched2 0 ds"
proof (rule nth_equalityI)
  show "length (directive_elems sched1 0 ds) = length (directive_elems sched2 0 ds)"
    by simp
next
  fix i
  assume "i < length (directive_elems sched1 0 ds)"
  then have i: "i < length ds" by simp
  with assms have "metrics_order sched1 i = metrics_order sched2 i"
      "dimensions_order sched1 i = dimensions_order sched2 i"
    by blast+
  with i show "directive_elems sched1 0 ds ! i = directive_elems sched2 0 ds ! i"
    by (simp add: nth_directive_elems)
qed

lemma MarshalJSON_jsonMap_Panic_iff:
  "MarshalJSON_jsonMap envMap now sched s em = Panic \<longleftrightarrow> \<not> live s em"
  using MarshalJSON_jsonMap_Return_iff [of envMap now sched s em]
  by (cases "MarshalJSON_jsonMap envMap now sched s em") auto

lemma MarshalJSON_same_orders:
  assumes adm1: "admissible sched1 s em" and adm2: "admissible sched2 s em"
    and same: "\<forall>i < length (directives_of s em).
                 metrics_order sched1 i = metrics_order sched2 i \<and>
                 dimensions_order sched1 i = dimensions_order sched2 i"
  shows "MarshalJSON_tree envMap now sched1 s em = MarshalJSON_tree envMap now sched2 s em"
proof (cases "live s em")
  case False
  then show ?thesis
    by (simp add: MarshalJSON_tree_def MarshalJSON_jsonMap_Panic_iff [THEN iffD2])
next
  case True
  then obtain jm1 jm2 where jm: "MarshalJSON_jsonMap envMap now sched1 s em = Return jm1"
      "MarshalJSON_jsonMap envMap now sched2 s em = Return jm2"
    using MarshalJSON_jsonMap_Return_iff by blast
  note s1 = MarshalJSON_jsonMap_spec [OF jm(1) adm1]
  note s2 = MarshalJSON_jsonMap_spec [OF jm(2) adm2]
  have "map_of jm1 = map_of jm2"
    by (simp add: s1(1) s2(1) directive_elems_cong [OF same])
  then have "sort_key fst jm1 = sort_key fst jm2"
    by (rule sort_key_fst_unique [OF s1(2) s2(2)])
  then show ?thesis
    by (simp add: MarshalJSON_tree_def jm json_Marshal_map_def)
qed

lemma mset_directive_elem:
  assumes "iterates mks1 (Metrics d)" "iterates mks2 (Metrics d)"
    and "iterates dks1 (Dimensions d)" "iterates dks2 (Dimensions d)"
  shows "cw_Namespace (directive_elem mks1 dks1 d) = cw_Namespace (directive_elem mks2 dks2 d)"
    and "mset (cw_Metrics (directive_elem mks1 dks1 d)) = mset (cw_Metrics (directive_elem mks2 dks2 d))"
    and "mset (cw_Dimensions (directive_elem mks1 dks1 d)) = mset (cw_Dimensions (directive_elem mks2 dks2 d))"
proof -
  have "mset mks1 = mset mks2" "mset dks1 = mset dks2"
    using assms by (simp_all add: iterates_def set_eq_iff_mset_eq_distinct [symmetric])
  then have "mset (map f mks1) = mset (map f mks2)" "mset (map g dks1) = mset (map g dks2)" for f :: "string \<Rightarrow> emfAWSCloudWatchMetricsElemMetricsElem" and g :: "string \<Rightarrow> string list"
    by simp_all
  then show "mset (cw_Metrics (directive_elem mks1 dks1 d)) = mset (cw_Metrics (directive_elem mks2 dks2 d))"
    "mset (cw_Dimensions (directive_elem mks1 dks1 d)) = mset (cw_Dimensions (directive_elem mks2 dks2 d))"
    by (simp_all add: directive_elem_iterates assms)
  show "cw_Namespace (directive_elem mks1 dks1 d) = cw_Namespace (directive_elem mks2 dks2 d)"
    by (simp add: directive_elem_def)
qed

lemma directive_elems_permuted:
  assumes adm1: "admissible sched1 s em" and adm2: "admissible sched2 s em"
  shows "list_all2 (\<lambda>e1 e2. cw_Namespace e1 = cw_Namespace e2 \<and>
                      mset (cw_Metrics e1) = mset (cw_Metrics e2) \<and>
                      mset (cw_Dimensions e1) = mset (cw_Dimensions e2))
           (directive_elems sched1 0 (directives_of s em))
           (directive_elems sched2 0 (directives_of s em))"
proof (rule list_all2_all_nthI)
  show "length (directive_elems sched1 0 (directives_of s em)) =
        length (directive_elems sched2 0 (directives_of s em))"
    by simp
next
  fix n
  assume "n < length (directive_elems sched1 0 (directives_of s em))"
  then have n: "n < length (directives_of s em)" by simp
  note a1 = admissible_nth [OF adm1 n]
  note a2 = admissible_nth [OF adm2 n]
  show "cw_Namespace (directive_elems sched1 0 (directives_of s em) ! n) =
        cw_Namespace (directive_elems sched2 0 (directives_of s em) ! n) \<and>
        mset (cw_Metrics (directive_elems sched1 0 (directives_of s em) ! n)) =
        mset (cw_Metrics (directive_elems sched2 0 (directives_of s em) ! n)) \<and>
        mset (cw_Dimensions (directive_elems sched1 0 (directives_of s em) ! n)) =
        mset (cw_Dimensions (directive_elems sched2 0 (directives_of s em) ! n))"
    using mset_directive_elem [OF a1(1) a2(1) a1(2) a2(2)] n
    by (simp add: nth_directive_elems)
qed


lemma marshal_members_Inl_cong:
  assumes "list_all2 (\<lambda>a b. \<forall>e. (marshal_jvalue (snd a) = Inl e) = (marshal_jvalue (snd b) = Inl e)) xs ys"
  shows "(marshal_members xs = Inl e) = (marshal_members ys = Inl e)"
  using assms
proof (induction xs ys rule: list_all2_induct)
  case Nil
  show ?case by simp
next
  case (Cons a xs b ys)
  show ?case
  proof (cases "marshal_jvalue (snd a)")
    case (Inl e1)
    with Cons.hyps(1) have "marshal_jvalue (snd b) = Inl e1" by blast
    with Inl show ?thesis by simp
  next
    case (Inr ja)
    with Cons.hyps(1) obtain jb where "marshal_jvalue (snd b) = Inr jb"
      by (cases "marshal_jvalue (snd b)") auto
    with Inr Cons.IH show ?thesis
      by (cases "marshal_members xs"; cases "marshal_members ys") auto
  qed
qed

lemma nth_map_of:
  assumes "distinct (map fst xs)" and "n < length xs"
  shows "map_of xs (fst (xs ! n)) = Some (snd (xs ! n))"
  using assms by (intro map_of_is_SomeI) (auto simp: in_set_conv_nth)

lemma json_Marshal_map_Inl_cong:
  assumes d1: "distinct (map fst jm1)" and d2: "distinct (map fst jm2)"
    and m1: "map_of jm1 = F(''_aws'' \<mapsto> AwsRef a1)" and m2: "map_of jm2 = F(''_aws'' \<mapsto> AwsRef a2)"
  shows "(json_Marshal_map jm1 = Inl e) = (json_Marshal_map jm2 = Inl e)"
proof -
  let ?x = "sort_key fst jm1" and ?y = "sort_key fst jm2"
  have dx: "distinct (map fst ?x)" "distinct (map fst ?y)"
    using d1 d2 by (simp_all add: map_sort_key)
  have "set (map fst jm1) = set (map fst jm2)"
    using m1 m2 by (simp add: dom_map_of_conv_image_fst [symmetric])
  then have keys: "map fst ?x = map fst ?y"
    using d1 d2 by (intro sorted_distinct_set_unique) (simp_all add: map_sort_key)
  then have len: "length ?x = length ?y"
    by (metis length_map)
  have "list_all2 (\<lambda>a b. \<forall>e. (marshal_jvalue (snd a) = Inl e) = (marshal_jvalue (snd b) = Inl e)) ?x ?y"
  proof (rule list_all2_all_nthI [OF len])
    fix n
    assume n: "n < length ?x"
    with len have n': "n < length ?y" by simp
    from keys n n' have k: "fst (?x ! n) = fst (?y ! n)"
      by (metis nth_map)
    have x: "map_of jm1 (fst (?x ! n)) = Some (snd (?x ! n))"
      using nth_map_of [OF dx(1) n] by (simp add: map_of_sort_key d1)
    have y: "map_of jm2 (fst (?x ! n)) = Some (snd (?y ! n))"
      using nth_map_of [OF dx(2) n'] by (simp add: map_of_sort_key d2 k)
    show "\<forall>e. (marshal_jvalue (snd (?x ! n)) = Inl e) = (marshal_jvalue (snd (?y ! n)) = Inl e)"
    proof (cases "fst (?x ! n) = ''_aws''")
      case True
      with x y m1 m2 have "snd (?x ! n) = AwsRef a1" "snd (?y ! n) = AwsRef a2"
        by simp_all
      then show ?thesis by simp
    next
      case False
      with x y m1 m2 have "snd (?x ! n) = snd (?y ! n)" by simp
      then show ?thesis by simp
    qed
  qed
  from marshal_members_Inl_cong [OF this, of e] show ?thesis
    by (auto simp: json_Marshal_map_def split: sum.splits)
qed

lemma json_Marshal_map_names:
  assumes "json_Marshal_map jm = Inr j"
  shows "member_names j = sort (map fst jm)"
proof -
  from assms obtain ms where ms: "marshal_members (sort_key fst jm) = Inr ms" "j = JObject ms"
    by (auto simp: json_Marshal_map_def split: sum.splits)
  from members_keys [OF marshal_members_Inr [OF ms(1)]] ms(2) show ?thesis
    by (simp add: map_sort_key)
qed

lemma MarshalJSON_tree_Inl_any_order:
  assumes adm1: "admissible sched1 s em" and adm2: "admissible sched2 s em"
  shows "(MarshalJSON_tree envMap now sched1 s em = Return (Inl e)) =
         (MarshalJSON_tree envMap now sched2 s em = Return (Inl e))"
proof (cases "live s em")
  case False
  then show ?thesis
    by (simp add: MarshalJSON_tree_def MarshalJSON_jsonMap_Panic_iff [THEN iffD2])
next
  case True
  then obtain jm1 jm2 where jm: "MarshalJSON_jsonMap envMap now sched1 s em = Return jm1"
      "MarshalJSON_jsonMap envMap now sched2 s em = Return jm2"
    using MarshalJSON_jsonMap_Return_iff by blast
  note s1 = MarshalJSON_jsonMap_spec [OF jm(1) adm1]
  note s2 = MarshalJSON_jsonMap_spec [OF jm(2) adm2]
  from json_Marshal_map_Inl_cong [OF s1(2) s2(2) s1(1) s2(1)] show ?thesis
    by (simp add: MarshalJSON_tree_def jm)
qed

lemma MarshalJSON_tree_names_any_order:
  assumes adm1: "admissible sched1 s em" and adm2: "admissible sched2 s em"
    and r1: "MarshalJSON_tree envMap now sched1 s em = Return (Inr j1)"
    and r2: "MarshalJSON_tree envMap now sched2 s em = Return (Inr j2)"
  shows "member_names j1 = member_names j2"
proof -
  from MarshalJSON_tree_cases [OF r1] MarshalJSON_tree_cases [OF r2] obtain jm1 jm2
    where jm: "MarshalJSON_jsonMap envMap now sched1 s em = Return jm1" "json_Marshal_map jm1 = Inr j1"
      "MarshalJSON_jsonMap envMap now sched2 s em = Return jm2" "json_Marshal_map jm2 = Inr j2"
    by blast
  note s1 = MarshalJSON_jsonMap_spec [OF jm(1) adm1]
  note s2 = MarshalJSON_jsonMap_spec [OF jm(3) adm2]
  have "set (map fst jm1) = set (map fst jm2)"
    using s1(1) s2(1) by (simp add: dom_map_of_conv_image_fst [symmetric])
  then have "sort (map fst jm1) = sort (map fst jm2)"
    using s1(2) s2(2) by (intro sorted_distinct_set_unique) simp_all
  then show ?thesis
    by (simp add: json_Marshal_map_names [OF jm(2)] json_Marshal_map_names [OF jm(4)])
qed


lemma MarshalJSON_Inl_iff:
  "(MarshalJSON envMap now sched s em = Return (Inl e)) =
   (MarshalJSON_tree envMap now sched s em = Return (Inl e))"
  by (auto simp: MarshalJSON_def split: result.splits sum.splits)

text \<open>
  Claim C8, amended. For one state and one clock reading, two encodings agree up to the
  order of the entries inside the \<^verbatim>\<open>Metrics\<close> and \<^verbatim>\<open>Dimensions\<close> arrays of each directive,
  which is the order in which the runtime iterates the directive's maps. Two encodings
  that visit the metrics and the dimensions of every directive in the same order return
  the same bytes, whatever the order of the loop over the properties. In any case they
  fail together and with the same error, and when they succeed the two objects have the
  same member names in the same order, the same value under every name other than
  \<^verbatim>\<open>_aws\<close>, the same timestamp, and element by element the same namespace and the same
  entries of \<^verbatim>\<open>Metrics\<close> and of \<^verbatim>\<open>Dimensions\<close>, as multisets.
\<close>

theorem encoding_deterministic_up_to_map_order:
  assumes adm1: "admissible sched1 s em" and adm2: "admissible sched2 s em"
  shows "((\<forall>i < length (directives_of s em).
             metrics_order sched1 i = metrics_order sched2 i \<and>
             dimensions_order sched1 i = dimensions_order sched2 i) \<longrightarrow>
            MarshalJSON envMap now sched1 s em = MarshalJSON envMap now sched2 s em) \<and>
         (\<forall>e. (MarshalJSON envMap now sched1 s em = Return (Inl e)) =
               (MarshalJSON envMap now sched2 s em = Return (Inl e))) \<and>
         (\<forall>j1 j2. MarshalJSON_tree envMap now sched1 s em = Return (Inr j1) \<and>
                  MarshalJSON_tree envMap now sched2 s em = Return (Inr j2) \<longrightarrow>
            member_names j1 = member_names j2 \<and>
            (\<forall>k. k \<noteq> ''_aws'' \<longrightarrow> member k j1 = member k j2) \<and>
            (\<exists>cw1 cw2.
               member ''_aws'' j1 =
                 Some (json_emfAWS \<lparr>Timestamp = now sdiv 1000000, CloudWatchMetrics = cw1\<rparr>) \<and>
               member ''_aws'' j2 =
                 Some (json_emfAWS \<lparr>Timestamp = now sdiv 1000000, CloudWatchMetrics = cw2\<rparr>) \<and>
               list_all2 (\<lambda>e1 e2. cw_Namespace e1 = cw_Namespace e2 \<and>
                                   mset (cw_Metrics e1) = mset (cw_Metrics e2) \<and>
                                   mset (cw_Dimensions e1) = mset (cw_Dimensions e2)) cw1 cw2))"
proof (intro conjI allI impI)
  assume "\<forall>i < length (directives_of s em).
             metrics_order sched1 i = metrics_order sched2 i \<and>
             dimensions_order sched1 i = dimensions_order sched2 i"
  from MarshalJSON_same_orders [OF adm1 adm2 this]
  show "MarshalJSON envMap now sched1 s em = MarshalJSON envMap now sched2 s em"
    by (simp add: MarshalJSON_def)
next
  fix e
  show "(MarshalJSON envMap now sched1 s em = Return (Inl e)) =
        (MarshalJSON envMap now sched2 s em = Return (Inl e))"
    by (simp add: MarshalJSON_Inl_iff MarshalJSON_tree_Inl_any_order [OF adm1 adm2])
next
  fix j1 j2
  assume "MarshalJSON_tree envMap now sched1 s em = Return (Inr j1) \<and>
          MarshalJSON_tree envMap now sched2 s em = Return (Inr j2)"
  then have r1: "MarshalJSON_tree envMap now sched1 s em = Return (Inr j1)"
    and r2: "MarshalJSON_tree envMap now sched2 s em = Return (Inr j2)"
    by simp_all
  show "member_names j1 = member_names j2"
    by (rule MarshalJSON_tree_names_any_order [OF adm1 adm2 r1 r2])
  show "member k j1 = member k j2" if "k \<noteq> ''_aws''" for k
  proof -
    have "map_option (Inr :: json \<Rightarrow> error + json) (member k j1) = map_option Inr (member k j2)"
      using MarshalJSON_tree_members [OF r1 adm1 that] MarshalJSON_tree_members [OF r2 adm2 that]
      by simp
    then show ?thesis
      by (cases "member k j1"; cases "member k j2") auto
  qed
  have "member ''_aws'' j1 =
          Some (json_emfAWS \<lparr>Timestamp = now sdiv 1000000,
                  CloudWatchMetrics = directive_elems sched1 0 (directives_of s em)\<rparr>)"
       "member ''_aws'' j2 =
          Some (json_emfAWS \<lparr>Timestamp = now sdiv 1000000,
                  CloudWatchMetrics = directive_elems sched2 0 (directives_of s em)\<rparr>)"
    using MarshalJSON_tree_aws [OF r1] MarshalJSON_tree_aws [OF r2] by auto
  with directive_elems_permuted [OF adm1 adm2]
  show "\<exists>cw1 cw2.
               member ''_aws'' j1 =
                 Some (json_emfAWS \<lparr>Timestamp = now sdiv 1000000, CloudWatchMetrics = cw1\<rparr>) \<and>
               member ''_aws'' j2 =
                 Some (json_emfAWS \<lparr>Timestamp = now sdiv 1000000, CloudWatchMetrics = cw2\<rparr>) \<and>
               list_all2 (\<lambda>e1 e2. cw_Namespace e1 = cw_Namespace e2 \<and>
                                   mset (cw_Metrics e1) = mset (cw_Metrics e2) \<and>
                                   mset (cw_Dimensions e1) = mset (cw_Dimensions e2)) cw1 cw2"
    by blast
qed

lemma pair_admissible:
  "admissible pair_sched_ab pair_store 5" "admissible pair_sched_ba pair_store 5"
  by (auto simp: state_defs pair_sched_ab_def pair_sched_ba_def pair_store_def List.map_filter_def)

lemma pair_tree_ab:
  "MarshalJSON_tree Map.empty 0 pair_sched_ab pair_store 5 =
     Return (Inr (pair_json [''x'', ''y''] [(''a'', ''Count''), (''b'', ''Bytes'')]))"
  by (simp add: pair_json_def MarshalJSON_tree_def MarshalJSON_jsonMap_def
      json_Marshal_map_def encode_directive_def range_map_def index_string_def json_emfAWS_def
      json_CloudWatchMetricsElem_def json_MetricsElem_def pair_sched_ab_def pair_store_def
      UnitCount_def UnitBytes_def)

lemma pair_tree_ba:
  "MarshalJSON_tree Map.empty 0 pair_sched_ba pair_store 5 =
     Return (Inr (pair_json [''y'', ''x''] [(''b'', ''Bytes''), (''a'', ''Count'')]))"
  by (simp add: pair_json_def MarshalJSON_tree_def MarshalJSON_jsonMap_def
      json_Marshal_map_def encode_directive_def range_map_def index_string_def json_emfAWS_def
      json_CloudWatchMetricsElem_def json_MetricsElem_def pair_sched_ba_def pair_store_def
      UnitCount_def UnitBytes_def)

theorem encoding_deterministic_up_to_map_order_witness:
  "admissible pair_sched_ab pair_store 5 \<and> admissible pair_sched_ba pair_store 5 \<and>
   MarshalJSON_tree Map.empty 0 pair_sched_ab pair_store 5 =
     Return (Inr (pair_json [''x'', ''y''] [(''a'', ''Count''), (''b'', ''Bytes'')])) \<and>
   MarshalJSON_tree Map.empty 0 pair_sched_ba pair_store 5 =
     Return (Inr (pair_json [''y'', ''x''] [(''b'', ''Bytes''), (''a'', ''Count'')])) \<and>
   member_names (pair_json [''x'', ''y''] [(''a'', ''Count''), (''b'', ''Bytes'')]) =
     member_names (pair_json [''y'', ''x''] [(''b'', ''Bytes''), (''a'', ''Count'')]) \<and>
   member ''a'' (pair_json [''x'', ''y''] [(''a'', ''Count''), (''b'', ''Bytes'')]) =
     member ''a'' (pair_json [''y'', ''x''] [(''b'', ''Bytes''), (''a'', ''Count'')])"
proof -
  note inst = encoding_deterministic_up_to_map_order [OF pair_admissible, of Map.empty 0,
      THEN conjunct2, THEN conjunct2, rule_format, OF conjI, OF pair_tree_ab pair_tree_ba]
  from inst have "member_names (pair_json [''x'', ''y''] [(''a'', ''Count''), (''b'', ''Bytes'')]) =
     member_names (pair_json [''y'', ''x''] [(''b'', ''Bytes''), (''a'', ''Count'')])"
    by (rule conjunct1)
  moreover have "member ''a'' (pair_json [''x'', ''y''] [(''a'', ''Count''), (''b'', ''Bytes'')]) =
     member ''a'' (pair_json [''y'', ''x''] [(''b'', ''Bytes''), (''a'', ''Count'')])"
    by (simp add: pair_json_def)
  ultimately show ?thesis
    using pair_admissible pair_tree_ab pair_tree_ba by simp
qed

text \<open>
  The directive of the example has the metrics \<^verbatim>\<open>a\<close> and \<^verbatim>\<open>b\<close>. One encoding visits them
  in this order, another in the opposite order: the bytes differ.
\<close>

theorem map_order_changes_bytes_counterexample:
  "admissible pair_sched_ab pair_store 5 \<and> admissible pair_sched_ba pair_store 5 \<and>
   MarshalJSON Map.empty 0 pair_sched_ab pair_store 5 =
     Return (Inr (render (pair_json [''x'', ''y''] [(''a'', ''Count''), (''b'', ''Bytes'')]))) \<and>
   MarshalJSON Map.empty 0 pair_sched_ba pair_store 5 =
     Return (Inr (render (pair_json [''y'', ''x''] [(''b'', ''Bytes''), (''a'', ''Count'')]))) \<and>
   render (pair_json [''x'', ''y''] [(''a'', ''Count''), (''b'', ''Bytes'')]) \<noteq>
     render (pair_json [''y'', ''x''] [(''b'', ''Bytes''), (''a'', ''Count'')])"
proof -
  have "render (pair_json [''x'', ''y''] [(''a'', ''Count''), (''b'', ''Bytes'')]) \<noteq>
     render (pair_json [''y'', ''x''] [(''b'', ''Bytes''), (''a'', ''Count'')])"
    by (simp add: pair_json_def json_quote_def json_escape_def fmt_int_def)
  then show ?thesis
    using pair_admissible by (simp add: MarshalJSON_def pair_tree_ab pair_tree_ba)
qed

section \<open>Writing to the sink\<close>

lemma stream_Write_effect:
  assumes "stream_Write h str w = ((n, err), w')"
  shows "written w' h = written w h @ take n str"
    and "\<forall>h'. h' \<noteq> h \<longrightarrow> written w' h' = written w h'"
    and "limit w' = limit w"
    and "fault w' = fault w"
    and "n \<le> length str"
    and "accepts_all w h \<longrightarrow> n = length str \<and> err = None"
    and "fault w h = None \<longrightarrow> err = (if n < length str then Some ErrShortWrite else None)"
    and "\<forall>e. fault w h = Some e \<longrightarrow> err = Some e \<and> n = 0"
proof -
  show "written w' h = written w h @ take n str"
    "\<forall>h'. h' \<noteq> h \<longrightarrow> written w' h' = written w h'"
    "limit w' = limit w" "fault w' = fault w" "n \<le> length str"
    "accepts_all w h \<longrightarrow> n = length str \<and> err = None"
    "fault w h = None \<longrightarrow> err = (if n < length str then Some ErrShortWrite else None)"
    "\<forall>e. fault w h = Some e \<longrightarrow> err = Some e \<and> n = 0"
    using assms
    by (cases "fault w h"; auto simp: stream_Write_def accepts_all_def Let_def split: option.splits)+
qed

lemma stream_Write_limited:
  assumes "stream_Write h str w = ((n, err), w')"
    and "fault w h = None" and "limit w h = Some l"
  shows "n = min (length str) (l - length (written w h))"
  using assms by (auto simp: stream_Write_def Let_def)

lemma fmt_Printf_effect:
  "\<exists>n. written (fmt_Printf text w) Stdout = written w Stdout @ take n text"
  "\<forall>h. h \<noteq> Stdout \<longrightarrow> written (fmt_Printf text w) h = written w h"
  "limit (fmt_Printf text w) = limit w"
  "fault (fmt_Printf text w) = fault w"
proof -
  obtain n err w' where wr: "stream_Write Stdout text w = ((n, err), w')"
    by (metis prod.exhaust)
  then have eq: "fmt_Printf text w = w'"
    by (simp add: fmt_Printf_def)
  note eff = stream_Write_effect [OF wr]
  show "\<exists>n. written (fmt_Printf text w) Stdout = written w Stdout @ take n text"
    using eff(1) eq by blast
  show "\<forall>h. h \<noteq> Stdout \<longrightarrow> written (fmt_Printf text w) h = written w h"
    using eff(2) eq by simp
  show "limit (fmt_Printf text w) = limit w" "fault (fmt_Printf text w) = fault w"
    using eff(3,4) eq by simp_all
qed

lemma accepts_all_fmt_Printf [simp]:
  "accepts_all (fmt_Printf text w) h = accepts_all w h"
  by (simp add: accepts_all_def fmt_Printf_effect)

lemma fmt_Printf_unlimited:
  "accepts_all w Stdout \<Longrightarrow> written (fmt_Printf text w) Stdout = written w Stdout @ text"
  by (simp add: fmt_Printf_def stream_Write_def accepts_all_def)

lemma check_preconditions_eq:
  assumes "list_all (\<lambda>a. directives s a \<noteq> None) as"
  shows "check_preconditions s as w =
           Return (fold (\<lambda>d w. if card (dom (Dimensions d)) > 9
                                 then fmt_Printf (dimension_warning (card (dom (Dimensions d)))) w
                                 else w)
                     (List.map_filter (directives s) as) w)"
  using assms by (induction as arbitrary: w) auto

lemma warn_fold_effect:
  fixes ds :: "MetricDirective list"
  defines "step \<equiv> (\<lambda>d w. if card (dom (Dimensions d)) > 9
                           then fmt_Printf (dimension_warning (card (dom (Dimensions d)))) w
                           else w)"
  shows "limit (fold step ds w) = limit w"
    and "fault (fold step ds w) = fault w"
    and "h \<noteq> Stdout \<Longrightarrow> written (fold step ds w) h = written w h"
    and "\<exists>t. written (fold step ds w) Stdout = written w Stdout @ t"
    and "accepts_all w Stdout \<Longrightarrow>
           written (fold step ds w) Stdout = written w Stdout @
             concat (map (\<lambda>d. if card (dom (Dimensions d)) > 9
                                then dimension_warning (card (dom (Dimensions d))) else []) ds)"
proof -
  have lim: "limit (step d w) = limit w" "fault (step d w) = fault w" for d w
    by (simp_all add: step_def fmt_Printf_effect)
  show "limit (fold step ds w) = limit w" for w
    by (induction ds arbitrary: w) (simp_all add: lim)
  show "fault (fold step ds w) = fault w" for w
    by (induction ds arbitrary: w) (simp_all add: lim)
  have acc: "accepts_all (step d w) h = accepts_all w h" for d w h
    by (simp add: accepts_all_def lim)
  have oth: "written (step d w) h = written w h" if "h \<noteq> Stdout" for d w
    using that by (simp add: step_def fmt_Printf_effect(2))
  show "written (fold step ds w) h = written w h" if "h \<noteq> Stdout"
    using that by (induction ds arbitrary: w) (simp_all add: oth)
  have pre: "\<exists>t. written (step d w) Stdout = written w Stdout @ t" for d w
    using fmt_Printf_effect(1) [of "dimension_warning (card (dom (Dimensions d)))" w]
    by (auto simp: step_def)
  show "\<exists>t. written (fold step ds w) Stdout = written w Stdout @ t"
  proof (induction ds arbitrary: w)
    case Nil
    show ?case by simp
  next
    case (Cons d ds)
    from pre [of d w] obtain t1 where t1: "written (step d w) Stdout = written w Stdout @ t1" by blast
    from Cons [of "step d w"] obtain t2 where
      "written (fold step ds (step d w)) Stdout = written (step d w) Stdout @ t2" by blast
    with t1 show ?case by simp
  qed
  have unl: "written (step d w) Stdout = written w Stdout @
                (if card (dom (Dimensions d)) > 9
                 then dimension_warning (card (dom (Dimensions d))) else [])"
    if "accepts_all w Stdout" for d w
    using that by (simp add: step_def fmt_Printf_unlimited)
  show "written (fold step ds w) Stdout = written w Stdout @
             concat (map (\<lambda>d. if card (dom (Dimensions d)) > 9
                                then dimension_warning (card (dom (Dimensions d))) else []) ds)"
    if "accepts_all w Stdout"
    using that
  proof (induction ds arbitrary: w)
    case Nil
    show ?case by simp
  next
    case (Cons d ds)
    have "accepts_all (step d w) Stdout" using Cons.prems by (simp add: acc)
    from Cons.IH [OF this] unl [OF Cons.prems, of d] show ?case by simp
  qed
qed

lemma check_preconditions_effect:
  assumes "live s em" and "embedded s em = Some e"
  obtains w1 where "check_preconditions s (metrics e) w = Return w1"
    and "limit w1 = limit w"
    and "fault w1 = fault w"
    and "\<And>h. h \<noteq> Stdout \<Longrightarrow> written w1 h = written w h"
    and "\<exists>t. written w1 Stdout = written w Stdout @ t"
    and "accepts_all w Stdout \<Longrightarrow> written w1 Stdout = written w Stdout @ warnings s em"
proof -
  from assms have all: "list_all (\<lambda>a. directives s a \<noteq> None) (metrics e)"
    by (simp add: live_def)
  have ds: "List.map_filter (directives s) (metrics e) = directives_of s em"
    by (simp add: directives_of_def assms(2))
  note eff = warn_fold_effect [where ds = "directives_of s em" and w = w]
  show thesis
  proof (rule that)
    show "check_preconditions s (metrics e) w =
            Return (fold (\<lambda>d w. if card (dom (Dimensions d)) > 9
                                 then fmt_Printf (dimension_warning (card (dom (Dimensions d)))) w
                                 else w) (directives_of s em) w)"
      by (simp add: check_preconditions_eq [OF all] ds)
  qed (use eff in \<open>simp_all add: warnings_def\<close>)
qed

lemma WithProperty_effect:
  assumes "embedded s em = Some e"
  shows "WithProperty s em key val =
           Return (em, s\<lparr>embedded := (embedded s)(em \<mapsto>
               e\<lparr>properties := Some ((case properties e of None \<Rightarrow> Map.empty | Some p \<Rightarrow> p)(key \<mapsto> val))\<rparr>)\<rparr>)"
  by (simp add: WithProperty_def assms)

lemma WithProperty_live:
  assumes "live s em"
  shows "\<exists>s'. WithProperty s em key val = Return (em, s') \<and> live s' em \<and>
           directives s' = directives s \<and> directives_of s' em = directives_of s em \<and>
           props_of s' em = (props_of s em)(key \<mapsto> val) \<and>
           (\<forall>a. a \<noteq> em \<longrightarrow> embedded s' a = embedded s a)"
proof -
  from live_Some [OF assms] obtain e where e: "embedded s em = Some e"
      "list_all (\<lambda>a. directives s a \<noteq> None) (metrics e)"
    by blast
  show ?thesis
    using e(2) by (simp add: WithProperty_effect [OF e(1)] live_def props_of_def directives_of_def e(1))
qed

lemma merge_properties_effect:
  assumes "live s em"
  shows "\<exists>s'. merge_properties ks ap s em = Return (em, s') \<and> live s' em \<and>
           directives s' = directives s \<and> directives_of s' em = directives_of s em \<and>
           props_of s' em = props_of s em ++ (ap |` set ks) \<and>
           (\<forall>a. a \<noteq> em \<longrightarrow> embedded s' a = embedded s a)"
  using assms
proof (induction ks arbitrary: s)
  case Nil
  then show ?case by simp
next
  case (Cons k ks)
  show ?case
  proof (cases "ap k")
    case None
    from Cons.IH [OF Cons.prems] obtain s' where s': "merge_properties ks ap s em = Return (em, s')"
      "live s' em" "directives s' = directives s" "directives_of s' em = directives_of s em"
      "props_of s' em = props_of s em ++ (ap |` set ks)"
      "\<forall>a. a \<noteq> em \<longrightarrow> embedded s' a = embedded s a"
      by blast
    have "ap |` set (k # ks) = ap |` set ks"
      using None by (auto simp: restrict_map_def fun_eq_iff)
    with s' None show ?thesis by simp
  next
    case (Some v)
    from WithProperty_live [OF Cons.prems, of k v] obtain s1 where s1:
      "WithProperty s em k v = Return (em, s1)" "live s1 em" "directives s1 = directives s"
      "directives_of s1 em = directives_of s em" "props_of s1 em = (props_of s em)(k \<mapsto> v)"
      "\<forall>a. a \<noteq> em \<longrightarrow> embedded s1 a = embedded s a"
      by blast
    from Cons.IH [OF s1(2)] obtain s' where s': "merge_properties ks ap s1 em = Return (em, s')"
      "live s' em" "directives s' = directives s1" "directives_of s' em = directives_of s1 em"
      "props_of s' em = props_of s1 em ++ (ap |` set ks)"
      "\<forall>a. a \<noteq> em \<longrightarrow> embedded s' a = embedded s1 a"
      by blast
    have "(props_of s em)(k \<mapsto> v) ++ (ap |` set ks) = props_of s em ++ (ap |` set (k # ks))"
      using Some by (auto simp: map_add_def restrict_map_def fun_eq_iff split: option.splits)
    with s' s1 Some show ?thesis by simp
  qed
qed

lemma restrict_iterates: "iterates ks m \<Longrightarrow> m |` set ks = m"
  by (auto simp: iterates_def restrict_map_def fun_eq_iff dom_def)

lemma json_Marshal_Return:
  "live s em \<Longrightarrow> \<exists>x. json_Marshal envMap now sched s em = Return x"
  using MarshalJSON_tree_Return [of s em envMap now sched]
  by (auto simp: json_Marshal_def MarshalJSON_def split: sum.splits option.splits)

lemma PublishToSink_unfold:
  assumes e: "embedded s em = Some e"
    and w1: "check_preconditions s (metrics e) w = Return w1"
    and s': "merge_properties ks ap s em = Return (em, s')"
    and raw: "json_Marshal envMap now sched s' em = Return rawJSON"
  shows "PublishToSink envMap now sched ks (s, w) em ap sink =
           (case io_WriteString sink (publish_line envMap now sched s' em) w1 of
              Panic \<Rightarrow> Panic
            | Return wr \<Rightarrow>
                Return (s', case snd (fst wr) of
                              None \<Rightarrow> snd wr
                            | Some writtenErr \<Rightarrow>
                                fmt_Printf (''ERROR: '' @ fmt_GoSyntax writtenErr) (snd wr)))"
proof (cases rawJSON)
  case (Inl x)
  with raw have "publish_line envMap now sched s' em = ''Error publishing metric: '' @ error_Error x"
    by (simp add: publish_line_def)
  with e w1 s' raw Inl show ?thesis
    by (simp add: PublishToSink_def split: result.splits)
next
  case (Inr b)
  with raw have "publish_line envMap now sched s' em = b"
    by (simp add: publish_line_def)
  with e w1 s' raw Inr show ?thesis
    by (simp add: PublishToSink_def split: result.splits)
qed


lemma PublishToSink_effect:
  assumes live: "live s em" and sink: "sink \<noteq> NilWriter"
  obtains s' w' n err where
    "PublishToSink envMap now sched ks (s, w) em ap sink = Return (s', w')"
    and "live s' em"
    and "directives s' = directives s"
    and "directives_of s' em = directives_of s em"
    and "props_of s' em = props_of s em ++ (ap |` set ks)"
    and "limit w' = limit w" and "fault w' = fault w"
    and "\<And>h. h \<noteq> Stdout \<Longrightarrow> h \<noteq> sink \<Longrightarrow> written w' h = written w h"
    and "n \<le> length (publish_line envMap now sched s' em)"
    and "accepts_all w sink \<Longrightarrow> n = length (publish_line envMap now sched s' em) \<and> err = None"
    and "fault w sink = None \<Longrightarrow>
           err = (if n < length (publish_line envMap now sched s' em)
                  then Some ErrShortWrite else None)"
    and "\<And>e. fault w sink = Some e \<Longrightarrow> err = Some e \<and> n = 0"
    and "sink \<noteq> Stdout \<Longrightarrow>
           written w' sink = written w sink @ take n (publish_line envMap now sched s' em)"
    and "sink \<noteq> Stdout \<Longrightarrow> accepts_all w Stdout \<Longrightarrow>
           written w' Stdout = written w Stdout @ warnings s em @ write_report err"
    and "sink = Stdout \<Longrightarrow> accepts_all w Stdout \<Longrightarrow>
           written w' Stdout = written w Stdout @ warnings s em @
             publish_line envMap now sched s' em"
    and "\<exists>t. written w' Stdout = written w Stdout @ t"
    and "\<And>l. sink \<noteq> Stdout \<Longrightarrow> fault w sink = None \<Longrightarrow> limit w sink = Some l \<Longrightarrow>
           n = min (length (publish_line envMap now sched s' em)) (l - length (written w sink))"
proof -
  from live_Some [OF live] obtain e where e: "embedded s em = Some e" by blast
  from check_preconditions_effect [OF live e, of w] obtain w1 where
    w1: "check_preconditions s (metrics e) w = Return w1"
    and w1_lim: "limit w1 = limit w" "fault w1 = fault w"
    and w1_oth: "\<And>h. h \<noteq> Stdout \<Longrightarrow> written w1 h = written w h"
    and w1_pre: "\<exists>t. written w1 Stdout = written w Stdout @ t"
    and w1_unl: "accepts_all w Stdout \<Longrightarrow> written w1 Stdout = written w Stdout @ warnings s em"
    by blast
  from merge_properties_effect [OF live, of ks ap] obtain s' where
    s': "merge_properties ks ap s em = Return (em, s')"
    and s'_facts: "live s' em" "directives s' = directives s"
      "directives_of s' em = directives_of s em"
      "props_of s' em = props_of s em ++ (ap |` set ks)"
    by blast
  from json_Marshal_Return [OF s'_facts(1)] obtain rawJSON where
    raw: "json_Marshal envMap now sched s' em = Return rawJSON" by blast
  let ?line = "publish_line envMap now sched s' em"
  obtain n err w2 where wr: "stream_Write sink ?line w1 = ((n, err), w2)"
    by (metis prod.exhaust)
  note io = stream_Write_effect [OF wr]
  have acc1: "accepts_all w1 h = accepts_all w h" for h
    by (simp add: accepts_all_def w1_lim)
  have acc2: "accepts_all w2 h = accepts_all w h" for h
    by (simp add: accepts_all_def w1_lim io(3,4))
  let ?w' = "case err of None \<Rightarrow> w2
             | Some writtenErr \<Rightarrow> fmt_Printf (''ERROR: '' @ fmt_GoSyntax writtenErr) w2"
  have run: "PublishToSink envMap now sched ks (s, w) em ap sink = Return (s', ?w')"
    using sink wr
    by (simp add: PublishToSink_unfold [OF e w1 s' raw] io_WriteString_def split: option.splits)
  have lim: "limit ?w' = limit w" "fault ?w' = fault w"
    using io(3,4) w1_lim by (simp_all add: fmt_Printf_effect split: option.splits)
  have oth_w2: "h \<noteq> Stdout \<Longrightarrow> written ?w' h = written w2 h" for h
    by (simp add: fmt_Printf_effect(2) split: option.splits)
  have rep: "accepts_all w Stdout \<Longrightarrow>
               written ?w' Stdout = written w2 Stdout @ write_report err"
    by (cases err) (simp_all add: write_report_def fmt_Printf_unlimited acc2)
  have grow2: "\<exists>t. written ?w' Stdout = written w2 Stdout @ t"
    using fmt_Printf_effect(1) [of _ w2] by (cases err) auto
  have grow1: "\<exists>t. written w2 Stdout = written w1 Stdout @ t"
    using io(1,2) by (cases "sink = Stdout") auto
  show thesis
  proof (rule that [of s' ?w' n err])
    show "PublishToSink envMap now sched ks (s, w) em ap sink = Return (s', ?w')"
      by (rule run)
    show "live s' em" "directives s' = directives s" "directives_of s' em = directives_of s em"
      "props_of s' em = props_of s em ++ (ap |` set ks)"
      by (rule s'_facts)+
    show "limit ?w' = limit w" "fault ?w' = fault w" by (rule lim)+
    show "written ?w' h = written w h" if "h \<noteq> Stdout" "h \<noteq> sink" for h
      using that io(2) w1_oth by (simp add: oth_w2)
    show "n \<le> length ?line" by (rule io(5))
    show "n = length ?line \<and> err = None" if "accepts_all w sink"
      using that io(6) by (simp add: acc1)
    show "err = (if n < length ?line then Some ErrShortWrite else None)"
      if "fault w sink = None"
      using that io(7) w1_lim by simp
    show "err = Some e \<and> n = 0" if "fault w sink = Some e" for e
      using that io(8) w1_lim by simp
    show "written ?w' sink = written w sink @ take n ?line" if "sink \<noteq> Stdout"
      using that io(1) w1_oth by (simp add: oth_w2)
    show "written ?w' Stdout = written w Stdout @ warnings s em @ write_report err"
      if "sink \<noteq> Stdout" "accepts_all w Stdout"
      using that io(2) w1_unl rep by simp
    show "written ?w' Stdout = written w Stdout @ warnings s em @ ?line"
      if "sink = Stdout" "accepts_all w Stdout"
    proof -
      from that io(6) have n: "n = length ?line" "err = None" by (simp_all add: acc1)
      with that io(1) w1_unl rep show ?thesis by (simp add: write_report_def)
    qed
    show "\<exists>t. written ?w' Stdout = written w Stdout @ t"
      using grow2 grow1 w1_pre by auto
    show "n = min (length ?line) (l - length (written w sink))"
      if "sink \<noteq> Stdout" "fault w sink = None" "limit w sink = Some l" for l
      using that stream_Write_limited [OF wr, of l] w1_lim w1_oth by simp
  qed
qed

section \<open>Properties: the last write wins\<close>

lemma ten_live: "live ten_store 8"
  by (simp add: live_def ten_store_def)

lemma ten_admissible: "admissible ten_sched ten_store 8"
  by (simp add: state_defs ten_sched_def ten_store_def ten_names_def List.map_filter_def insert_commute)



lemma ten_tree: "MarshalJSON_tree Map.empty 0 ten_sched ten_store 8 = Return (Inr ten_json)"
  by (simp add: ten_json_def MarshalJSON_tree_def MarshalJSON_jsonMap_def
      json_Marshal_map_def encode_directive_def range_map_def index_string_def json_emfAWS_def
      json_CloudWatchMetricsElem_def json_MetricsElem_def ten_sched_def ten_store_def
      ten_names_def UnitCount_def)





lemma MarshalJSON_tree_cong:
  assumes l1: "live s1 em1" and l2: "live s2 em2"
    and p: "props_of s1 em1 = props_of s2 em2"
    and d: "directives_of s1 em1 = directives_of s2 em2"
    and adm: "admissible sched s1 em1"
  shows "MarshalJSON_tree envMap now sched s1 em1 = MarshalJSON_tree envMap now sched s2 em2"
proof -
  from adm p d have adm2: "admissible sched s2 em2"
    by (simp add: admissible_def)
  from l1 l2 obtain jm1 jm2 where jm: "MarshalJSON_jsonMap envMap now sched s1 em1 = Return jm1"
      "MarshalJSON_jsonMap envMap now sched s2 em2 = Return jm2"
    using MarshalJSON_jsonMap_Return_iff by blast
  note a = MarshalJSON_jsonMap_spec [OF jm(1) adm]
  note b = MarshalJSON_jsonMap_spec [OF jm(2) adm2]
  have "map_of jm1 = map_of jm2"
    by (simp add: a(1) b(1) p d)
  then have "sort_key fst jm1 = sort_key fst jm2"
    by (rule sort_key_fst_unique [OF a(2) b(2)])
  then show ?thesis
    by (simp add: MarshalJSON_tree_def jm json_Marshal_map_def)
qed

lemma MarshalJSON_tree_embedded:
  assumes "MarshalJSON_tree envMap now sched s em = Return x"
  shows "\<exists>e. embedded s em = Some e"
  using MarshalJSON_tree_cases [OF assms] MarshalJSON_jsonMap_Return_iff [of envMap now sched s em]
  by (auto dest: live_Some)

lemma json_Marshal_tree:
  assumes "MarshalJSON_tree envMap now sched s em = Return x"
  shows "json_Marshal envMap now sched s em =
           Return (case x of
                     Inl e \<Rightarrow> Inl (MarshalerError ''*cloudwatch.EmbeddedMetric'' e)
                   | Inr j \<Rightarrow> Inr (render j))"
  using MarshalJSON_tree_embedded [OF assms] assms
  by (auto simp: json_Marshal_def MarshalJSON_def split: sum.splits)

lemma publish_line_tree:
  "MarshalJSON_tree envMap now sched s em = Return (Inr j) \<Longrightarrow>
   publish_line envMap now sched s em = render j"
  "MarshalJSON_tree envMap now sched s em = Return (Inl e) \<Longrightarrow>
   publish_line envMap now sched s em =
     ''Error publishing metric: '' @ error_Error (MarshalerError ''*cloudwatch.EmbeddedMetric'' e)"
  by (simp_all add: publish_line_def json_Marshal_tree)

lemma ten_publish:
  assumes "PublishToSink Map.empty 0 ten_sched [] (ten_store, w) 8 Map.empty sink = Return (s', w')"
    and sink: "sink \<noteq> NilWriter"
  shows "publish_line Map.empty 0 ten_sched s' 8 = render ten_json"
proof -
  from PublishToSink_effect [OF ten_live sink, of Map.empty 0 ten_sched "[]" w Map.empty]
  obtain s'' w'' where r: "PublishToSink Map.empty 0 ten_sched [] (ten_store, w) 8 Map.empty sink = Return (s'', w'')"
    and f: "live s'' 8" "directives_of s'' 8 = directives_of ten_store 8"
      "props_of s'' 8 = props_of ten_store 8 ++ (Map.empty |` set [])"
    by metis
  from r assms(1) have "s'' = s'" by simp
  with f have "MarshalJSON_tree Map.empty 0 ten_sched ten_store 8 = MarshalJSON_tree Map.empty 0 ten_sched s' 8"
    by (intro MarshalJSON_tree_cong ten_live ten_admissible) simp_all
  then show ?thesis
    by (simp add: publish_line_tree(1) [of _ _ _ _ _ ten_json] ten_tree)
qed


lemma dom_foldl_flat:
  "dom (foldl (\<lambda>m d. m ++ flat_directive d) m0 ds) =
     dom m0 \<union> (\<Union>d \<in> set ds. dom (Metrics d) \<union> dom (Dimensions d))"
proof (induction ds arbitrary: m0)
  case Nil
  show ?case by simp
next
  case (Cons d ds)
  have "dom (flat_directive d) = dom (Metrics d) \<union> dom (Dimensions d)"
    by (auto simp: flat_directive_def map_add_def dom_def split: option.splits)
  then show ?case by (auto simp: Cons.IH)
qed

lemma dom_flat_merge:
  "dom (flat_merge envMap props ds) =
     {''log_group_name'', ''log_steam_name''} \<union> dom props \<union>
     (\<Union>d \<in> set ds. dom (Metrics d) \<union> dom (Dimensions d))"
proof -
  have "dom (reserved_fields envMap ++ (\<lambda>k. map_option Iface (props k))) =
          {''log_group_name'', ''log_steam_name''} \<union> dom props"
    by (auto simp: reserved_fields_def map_add_def dom_def split: option.splits if_splits)
  then show ?thesis
    by (simp add: flat_merge_def dom_foldl_flat)
qed

lemma flat_merge_property:
  assumes "props key = Some v"
    and "\<forall>d \<in> set ds. key \<notin> dom (Metrics d) \<union> dom (Dimensions d)"
  shows "flat_merge envMap props ds key = Some (Iface v)"
proof -
  have "flat_merge envMap props ds key =
          (reserved_fields envMap ++ (\<lambda>k. map_option Iface (props k))) key"
    unfolding flat_merge_def by (rule foldl_flat_other [OF assms(2)])
  with assms(1) show ?thesis by (simp add: map_add_def)
qed

lemma MarshalJSON_tree_names:
  assumes run: "MarshalJSON_tree envMap now sched s em = Return (Inr j)"
  shows "distinct (member_names j)" and "sorted (member_names j)"
  using MarshalJSON_tree_aws [OF run] by auto

lemma MarshalJSON_tree_name_set:
  assumes run: "MarshalJSON_tree envMap now sched s em = Return (Inr j)"
    and adm: "admissible sched s em"
  shows "set (member_names j) =
           insert ''_aws'' (dom (flat_merge envMap (props_of s em) (directives_of s em)))"
proof -
  from MarshalJSON_tree_spec [OF run adm] obtain ms where j: "j = JObject ms"
    and all: "\<And>k. map_option marshal_jvalue
                  (((flat_merge envMap (props_of s em) (directives_of s em))
                     (''_aws'' \<mapsto> AwsRef \<lparr>Timestamp = now sdiv 1000000,
                         CloudWatchMetrics = directive_elems sched 0 (directives_of s em)\<rparr>)) k) =
                map_option Inr (map_of ms k)"
    by blast
  have "k \<in> dom (map_of ms) \<longleftrightarrow>
        k \<in> insert ''_aws'' (dom (flat_merge envMap (props_of s em) (directives_of s em)))" for k
    using all [of k] by (cases "map_of ms k") (auto split: if_splits)
  then have "dom (map_of ms) =
        insert ''_aws'' (dom (flat_merge envMap (props_of s em) (directives_of s em)))"
    by blast
  then show ?thesis
    by (simp add: j dom_map_of_conv_image_fst)
qed

text \<open>
  Claim C7. \<^verbatim>\<open>WithProperty\<close> returns the instance it was called on, here the same address,
  and stores the value under the key: after two calls with the same key the property map
  is the old one with that key bound to the second value, so the key has one entry, the
  latest. In every encoding of that state the member names are distinct, the key is one
  of them, and unless a directive uses the name too (or it is \<^verbatim>\<open>_aws\<close>) its member is the
  encoded second value. The map \<open>additionalProperties\<close> of \<^verbatim>\<open>PublishToSink\<close> is merged the
  same way: afterwards the property map is the old one overwritten by it (the sink not
  being nil, so that the call returns).
\<close>

theorem property_last_write_wins:
  assumes live: "live s em"
  shows "\<exists>s1 s2.
           WithProperty s em key v1 = Return (em, s1) \<and>
           WithProperty s1 em key v2 = Return (em, s2) \<and>
           props_of s2 em = (props_of s em)(key \<mapsto> v2) \<and>
           directives_of s2 em = directives_of s em \<and>
           (\<forall>envMap now sched j.
              MarshalJSON_tree envMap now sched s2 em = Return (Inr j) \<and> admissible sched s2 em \<longrightarrow>
                distinct (member_names j) \<and> key \<in> set (member_names j) \<and>
                (key \<noteq> ''_aws'' \<and>
                 (\<forall>d \<in> set (directives_of s em). key \<notin> dom (Metrics d) \<union> dom (Dimensions d)) \<longrightarrow>
                   map_option Inr (member key j) = Some (marshal_goval v2))) \<and>
           (\<forall>ks ap envMap now sched w sink.
              iterates ks ap \<and> sink \<noteq> NilWriter \<longrightarrow>
                (\<exists>s' w'. PublishToSink envMap now sched ks (s, w) em ap sink = Return (s', w') \<and>
                         props_of s' em = props_of s em ++ ap))"
proof -
  from WithProperty_live [OF live, of key v1] obtain s1 where s1:
    "WithProperty s em key v1 = Return (em, s1)" "live s1 em"
    "directives_of s1 em = directives_of s em" "props_of s1 em = (props_of s em)(key \<mapsto> v1)"
    by blast
  from WithProperty_live [OF s1(2), of key v2] obtain s2 where s2:
    "WithProperty s1 em key v2 = Return (em, s2)" "live s2 em"
    "directives_of s2 em = directives_of s1 em" "props_of s2 em = (props_of s1 em)(key \<mapsto> v2)"
    by blast
  have props: "props_of s2 em = (props_of s em)(key \<mapsto> v2)"
    by (simp add: s2(4) s1(4))
  have ds: "directives_of s2 em = directives_of s em"
    by (simp add: s2(3) s1(3))
  have enc: "distinct (member_names j) \<and> key \<in> set (member_names j) \<and>
                (key \<noteq> ''_aws'' \<and>
                 (\<forall>d \<in> set (directives_of s em). key \<notin> dom (Metrics d) \<union> dom (Dimensions d)) \<longrightarrow>
                   map_option Inr (member key j) = Some (marshal_goval v2))"
    if run: "MarshalJSON_tree envMap now sched s2 em = Return (Inr j)"
      and adm: "admissible sched s2 em" for envMap now sched j
  proof (intro conjI impI)
    show "distinct (member_names j)"
      by (rule MarshalJSON_tree_names(1) [OF run])
    show "key \<in> set (member_names j)"
      by (simp add: MarshalJSON_tree_name_set [OF run adm] dom_flat_merge props)
    assume k: "key \<noteq> ''_aws'' \<and>
               (\<forall>d \<in> set (directives_of s em). key \<notin> dom (Metrics d) \<union> dom (Dimensions d))"
    then have "flat_merge envMap (props_of s2 em) (directives_of s2 em) key = Some (Iface v2)"
      by (intro flat_merge_property) (simp_all add: props ds)
    with MarshalJSON_tree_members [OF run adm, of key] k
    show "map_option Inr (member key j) = Some (marshal_goval v2)"
      by simp
  qed
  have pub: "\<exists>s' w'. PublishToSink envMap now sched ks (s, w) em ap sink = Return (s', w') \<and>
                         props_of s' em = props_of s em ++ ap"
    if a: "iterates ks ap \<and> sink \<noteq> NilWriter" for ks ap envMap now sched w sink
  proof -
    from a have it: "iterates ks ap" and sink: "sink \<noteq> NilWriter" by simp_all
    from PublishToSink_effect [OF live sink, of envMap now sched ks w ap]
    obtain s' w' where "PublishToSink envMap now sched ks (s, w) em ap sink = Return (s', w')"
      "props_of s' em = props_of s em ++ (ap |` set ks)"
      by metis
    with restrict_iterates [OF it] show ?thesis by auto
  qed
  have pub': "\<forall>ks ap envMap now sched w sink.
              iterates ks ap \<and> sink \<noteq> NilWriter \<longrightarrow>
                (\<exists>s' w'. PublishToSink envMap now sched ks (s, w) em ap sink = Return (s', w') \<and>
                         props_of s' em = props_of s em ++ ap)"
    using pub by (intro allI impI)
  have enc': "\<forall>envMap now sched j.
              MarshalJSON_tree envMap now sched s2 em = Return (Inr j) \<and> admissible sched s2 em \<longrightarrow>
                distinct (member_names j) \<and> key \<in> set (member_names j) \<and>
                (key \<noteq> ''_aws'' \<and>
                 (\<forall>d \<in> set (directives_of s em). key \<notin> dom (Metrics d) \<union> dom (Dimensions d)) \<longrightarrow>
                   map_option Inr (member key j) = Some (marshal_goval v2))"
    using enc by (intro allI impI) (elim conjE)
  show ?thesis
    by (intro exI [of _ s1] exI [of _ s2] conjI s1(1) s2(1) props ds enc' pub')
qed


lemma ex_live: "live ex_store 2"
  by (simp add: live_def ex_store_def)

theorem property_last_write_wins_witness:
  "live ex_store 2 \<and>
   props_of ex_store 2 = [''requestId'' \<mapsto> GString ''abc-123''] \<and>
   (case WithProperty ex_store 2 ''requestId'' (GString ''first'') of
      Panic \<Rightarrow> False
    | Return r1 \<Rightarrow>
        fst r1 = 2 \<and>
        (case WithProperty (snd r1) 2 ''requestId'' (GString ''second'') of
           Panic \<Rightarrow> False
         | Return r2 \<Rightarrow>
             fst r2 = 2 \<and> props_of (snd r2) 2 = [''requestId'' \<mapsto> GString ''second'']))"
proof -
  have p: "props_of ex_store 2 = [''requestId'' \<mapsto> GString ''abc-123'']"
    by (simp add: props_of_def ex_store_def)
  from property_last_write_wins [OF ex_live, of "''requestId''" "GString ''first''" "GString ''second''"]
  obtain s1 s2 where
    "WithProperty ex_store 2 ''requestId'' (GString ''first'') = Return (2, s1)"
    "WithProperty s1 2 ''requestId'' (GString ''second'') = Return (2, s2)"
    "props_of s2 2 = (props_of ex_store 2)(''requestId'' \<mapsto> GString ''second'')"
    by blast
  then show ?thesis
    using ex_live by (simp add: p)
qed

section \<open>Publishing: when the call returns\<close>



lemma constructors_live:
  "live (snd (NewEmbeddedMetric a s)) a"
  "live (snd (NewEmbeddedMetricWithProperties a s props)) a"
  by (simp_all add: NewEmbeddedMetric_def NewEmbeddedMetricWithProperties_def live_def)

text \<open>
  An instance is live when it and the directives it lists exist. The constructors return
  a live instance (\<open>constructors_live\<close>), \<^verbatim>\<open>WithProperty\<close> and \<^verbatim>\<open>NewMetricDirective\<close> keep it
  live (\<open>WithProperty_live\<close>, \<open>NewMetricDirective_appends\<close>): these are the instances a
  caller of the package can build.
\<close>





section \<open>The dimension warning\<close>








end
